theory Spec2Isabelle
  imports Main
begin

section \<open>Pipeline state machine of \<^verbatim>\<open>main.py\<close>\<close>

text \<open>
  A shallow embedding of \<^verbatim>\<open>PipelineManager\<close> (file \<^verbatim>\<open>src/main.py\<close>): the per-document
  ledger, its persistence to the state file, the three stage executors and the two
  orchestrators. The manager object, the files it reads and writes and the clock it reads
  are one explicit value of type \<open>pipeline\<close> that every method takes and returns.
  What lies outside the program (the hash function, the HTTP download, the extraction
  service, the language model, the outcome of a file write) is a parameter of type
  \<open>env\<close>, one function per call shape. Logging is presentation and is left out.
\<close>

subsection \<open>Values\<close>

text \<open>\<^verbatim>\<open>class ProcessingStatus(str, Enum)\<close>, all six members.\<close>

datatype ProcessingStatus =
  PENDING | DOWNLOADED | AGENTIC_PROCESSED | TRANSFORMED | COMPLETED | FAILED

text \<open>
  The keys of \<^verbatim>\<open>doc["steps"]\<close>. Every record is created with exactly these three keys, and
  \<^verbatim>\<open>doc["steps"][step]\<close> never adds a key, so the step name is a three-valued type and
  \<^verbatim>\<open>doc["steps"]\<close> a total function on it.
\<close>

datatype step = download | agentic_process | transform

text \<open>JSON values, for the metadata annotations and the language model's answers.\<close>

datatype json =
  JNull | JBool bool | JInt int | JStr string | JList "json list" | JDict "(string \<times> json) list"

text \<open>Python's truth value of a JSON value (\<^verbatim>\<open>if structured_fig:\<close>).\<close>

fun truthy :: "json \<Rightarrow> bool" where
  "truthy JNull = False"
| "truthy (JBool b) = b"
| "truthy (JInt i) = (i \<noteq> 0)"
| "truthy (JStr s) = (s \<noteq> [])"
| "truthy (JList xs) = (xs \<noteq> [])"
| "truthy (JDict kvs) = (kvs \<noteq> [])"

datatype py_error = KeyError string | ValueError string

text \<open>
  \<^verbatim>\<open>datetime.now().isoformat()\<close>: a reading of the clock. The clock is a counter in the
  pipeline value; every reading returns it and advances it.
\<close>

type_synonym timestamp = nat

subsection \<open>Strings and paths\<close>

definition lower_char :: "char \<Rightarrow> char" where
  "lower_char c =
     (let n = (of_char c :: nat) in if 65 \<le> n \<and> n \<le> 90 then char_of (n + 32) else c)"

text \<open>\<^verbatim>\<open>str.lower()\<close> on the ASCII letters (a \<open>char\<close> is a byte).\<close>

definition lower :: "string \<Rightarrow> string" where
  "lower s = map lower_char s"

definition endswith :: "string \<Rightarrow> string \<Rightarrow> bool" where
  "endswith s suf = (length suf \<le> length s \<and> drop (length s - length suf) s = suf)"

fun startswith :: "string \<Rightarrow> string \<Rightarrow> bool" where
  "startswith s [] = True"
| "startswith [] (c # cs) = False"
| "startswith (x # xs) (c # cs) = (x = c \<and> startswith xs cs)"

text \<open>\<^verbatim>\<open>sub in s\<close> for strings.\<close>

fun contains :: "string \<Rightarrow> string \<Rightarrow> bool" where
  "contains [] sub = (sub = [])"
| "contains (x # xs) sub = (startswith (x # xs) sub \<or> contains xs sub)"

text \<open>\<^verbatim>\<open>if not name.lower().endswith('.pdf'): name = name + '.pdf'\<close>\<close>

definition ensure_pdf :: "string \<Rightarrow> string" where
  "ensure_pdf name = (if \<not> endswith (lower name) ''.pdf'' then name @ ''.pdf'' else name)"

text \<open>\<^verbatim>\<open>s.split('/')[-1]\<close>: what follows the last slash.\<close>

definition last_segment :: "string \<Rightarrow> string" where
  "last_segment s = rev (takeWhile (\<lambda>c. c \<noteq> CHR ''/'') (rev s))"

text \<open>\<^verbatim>\<open>s.rsplit('.', 1)[0]\<close>: what precedes the last dot, the whole string without a dot.\<close>

definition rsplit_dot :: "string \<Rightarrow> string" where
  "rsplit_dot s =
     (if CHR ''.'' \<in> set s then rev (tl (dropWhile (\<lambda>c. c \<noteq> CHR ''.'') (rev s))) else s)"

text \<open>
  \<^verbatim>\<open>Path(a) / b\<close>: an absolute right operand replaces the left one. Normalisation of
  repeated slashes and dots is not modelled.
\<close>

definition path_join :: "string \<Rightarrow> string \<Rightarrow> string" where
  "path_join a b = (if startswith b ''/'' then b else a @ ''/'' @ b)"

fun digit_char :: "nat \<Rightarrow> char" where
  "digit_char n = char_of (48 + n)"

text \<open>\<^verbatim>\<open>str(n)\<close> for a natural number.\<close>

fun str_nat :: "nat \<Rightarrow> string" where
  "str_nat n = (if n < 10 then [digit_char n] else str_nat (n div 10) @ [digit_char (n mod 10)])"

declare str_nat.simps [simp del]

definition str_int :: "int \<Rightarrow> string" where
  "str_int i = (if i < 0 then ''-'' @ str_nat (nat (- i)) else str_nat (nat i))"

subsection \<open>The ledger\<close>

record step_entry =
  status :: ProcessingStatus
  timestamp :: "timestamp option"

record error_entry =
  e_step :: step
  e_error :: string
  e_timestamp :: timestamp

text \<open>
  \<^verbatim>\<open>doc["metadata"]\<close>: empty for \<^verbatim>\<open>add_document\<close>, the seven keys for
  \<^verbatim>\<open>add_document_from_json\<close>. \<open>None\<close> is an absent key.
\<close>

record metadata =
  m_document_type :: "json option"
  m_access :: "json option"
  m_language :: "json option"
  m_country :: "json option"
  m_publisher :: "json option"
  m_section :: "json option"
  m_output_folder :: "string option"

definition empty_metadata :: metadata where
  "empty_metadata = \<lparr> m_document_type = None, m_access = None, m_language = None,
     m_country = None, m_publisher = None, m_section = None, m_output_folder = None \<rparr>"

record document =
  url :: string
  original_filename :: string
  d_metadata :: metadata
  d_status :: ProcessingStatus
  created_at :: timestamp
  steps :: "step \<Rightarrow> step_entry"
  files :: "step \<rightharpoonup> string"
  errors :: "error_entry list"

text \<open>\<^verbatim>\<open>self.state\<close>, the content of \<^verbatim>\<open>pipeline_state.json\<close>.\<close>

record pipeline_state =
  s_created_at :: timestamp
  documents :: "string \<rightharpoonup> document"
  pipeline_version :: string
  updated_at :: "timestamp option"

subsection \<open>What the extraction service returns\<close>

text \<open>
  One grounding of a chunk: \<open>g_page\<close> is \<open>None\<close> when the object has no attribute
  \<^verbatim>\<open>page\<close>; \<open>g_box\<close> is \<open>None\<close> when it has no (or an empty) \<^verbatim>\<open>box\<close>, and otherwise
  holds what \<^verbatim>\<open>box.model_dump()\<close> (or \<^verbatim>\<open>str(box)\<close>) gives.
\<close>

record ext_grounding =
  g_page :: "int option"
  g_box :: "json option"

text \<open>
  One chunk: \<open>chunk_type\<close> is \<^verbatim>\<open>str(chunk.chunk_type)\<close>, \<open>c_text\<close> is \<open>None\<close> without the
  attribute \<^verbatim>\<open>text\<close>, \<open>c_str\<close> is \<^verbatim>\<open>str(chunk)\<close>, \<open>c_grounding\<close> is empty when the
  attribute is absent or empty.
\<close>

record ext_chunk =
  chunk_type :: string
  c_text :: "string option"
  c_str :: string
  c_grounding :: "ext_grounding list"

record ext_document =
  markdown :: "string option"
  chunks :: "ext_chunk list"

subsection \<open>The extract-stage artifact\<close>

record grounding_data =
  gd_page :: "int option"
  gd_bbox :: "json option"

record chunk_data =
  ch_id :: string
  ch_content :: string
  ch_type :: string
  ch_grounding :: "grounding_data list option"

record figure_data =
  fg_id :: string
  fg_text :: string
  fg_type :: string
  fg_grounding :: "grounding_data list option"

record agentic_metadata =
  am_document_id :: string
  am_source_url :: string
  am_pdf_path :: string
  am_processed_date :: timestamp
  am_total_chunks :: nat
  am_total_figures :: nat
  am_total_characters :: nat

record agentic_document =
  ad_id :: string
  ad_filename :: string
  ad_markdown :: string
  ad_chunks :: "chunk_data list"
  ad_figures :: "figure_data list"

record agentic_output =
  ao_metadata :: agentic_metadata
  ao_document :: agentic_document

subsection \<open>The structure-stage artifact\<close>

record page_obj =
  page_number :: int
  page_text :: string
  structured_page_content :: json
  structured_image_content :: "json list"
  text_embedding :: "json list"

record processed_metadata =
  pm_document_name :: string
  pm_total_pages :: int
  pm_document_type :: json
  pm_source :: string
  pm_processing_stack :: "string list"
  pm_processed_date :: timestamp
  pm_country :: json
  pm_publisher :: json
  pm_section :: json
  pm_access :: json
  pm_language :: json
  pm_total_chunks :: nat
  pm_total_figures :: nat

record pdf_processed =
  pp_metadata :: processed_metadata
  pp_content :: "page_obj list"

subsection \<open>Files, the environment, the manager\<close>

text \<open>
  What a path of the file system holds. \<open>PartialFile\<close> is what \<^verbatim>\<open>open(path, 'w')\<close>
  followed by a \<^verbatim>\<open>json.dump\<close> (or a \<^verbatim>\<open>write\<close>) that raised leaves behind: the file exists,
  its content is not a complete document.
\<close>

datatype file_content =
  PdfFile string
| StateFile pipeline_state
| AgenticFile agentic_output
| ProcessedFile pdf_processed
| PartialFile

text \<open>
  How \<^verbatim>\<open>with open(path, 'w') as f: json.dump(obj, f)\<close> ends: the file is complete;
  \<^verbatim>\<open>open\<close> raised and nothing was created; or the dump raised after \<^verbatim>\<open>open\<close> had created
  (and truncated) the file. The string is \<^verbatim>\<open>str(e)\<close>.
\<close>

datatype write_outcome = WriteOk | OpenRaises string | DumpRaises string

record env =
  md5_hexdigest :: "string \<Rightarrow> string"
  urlparse_path :: "string \<Rightarrow> string"
  time_time :: nat
  requests_get :: "string \<Rightarrow> string + string"
  parse :: "string \<Rightarrow> string + ext_document list"
  chat_complete :: "string \<Rightarrow> nat \<Rightarrow> json option"
  write_result :: "string \<Rightarrow> write_outcome"

text \<open>
  \<^item> \<open>md5_hexdigest\<close>: \<^verbatim>\<open>hashlib.md5(url.encode()).hexdigest()\<close>;
  \<^item> \<open>urlparse_path\<close>: \<^verbatim>\<open>urlparse(url).path\<close>; \<open>time_time\<close>: \<^verbatim>\<open>int(time.time())\<close>;
  \<^item> \<open>requests_get\<close>: \<^verbatim>\<open>requests.get\<close> and \<^verbatim>\<open>raise_for_status\<close>, \<open>Inl\<close> the message of
    the exception, \<open>Inr\<close> the body;
  \<^item> \<open>parse\<close>: \<^verbatim>\<open>agentic_doc.parse.parse\<close> on a path, \<open>Inl\<close> the message of the exception;
  \<^item> \<open>chat_complete\<close>: the request to the language model, for a prompt and a token
    limit, followed by \<^verbatim>\<open>json.loads\<close> of the answer; \<open>None\<close> when either raises;
  \<^item> \<open>write_result\<close>: how writing an artifact to a path ends.

  The write of the state file is taken to succeed: its content holds only strings, numbers
  and \<^verbatim>\<open>None\<close>, and \<^verbatim>\<open>_save_state\<close> has no handler of its own.
\<close>

text \<open>
  The manager. \<open>invoked\<close> is a ghost field: it records each entry into a stage executor
  and is read by no method.
\<close>

record pipeline =
  work_dir :: string
  state_file :: string
  state :: pipeline_state
  fs :: "string \<rightharpoonup> file_content"
  clock :: nat
  invoked :: "(step \<times> string) list"

definition now :: "pipeline \<Rightarrow> timestamp \<times> pipeline" where
  "now p = (clock p, p\<lparr>clock := Suc (clock p)\<rparr>)"

subsection \<open>State store\<close>

definition load_state :: "pipeline \<Rightarrow> pipeline_state \<times> pipeline" where
  "load_state p =
     (case fs p (state_file p) of
        Some (StateFile s) \<Rightarrow> (s, p)
      | _ \<Rightarrow> (let (t, p1) = now p
             in (\<lparr> s_created_at = t, documents = Map.empty, pipeline_version = ''1.0'',
                    updated_at = None \<rparr>, p1)))"

definition save_state :: "pipeline \<Rightarrow> pipeline" where
  "save_state p =
     (let (t, p1) = now p;
          s = (state p1)\<lparr>updated_at := Some t\<rparr>
      in p1\<lparr>state := s, fs := (fs p1)(state_file p1 \<mapsto> StateFile s)\<rparr>)"

definition get_document_id :: "env \<Rightarrow> string \<Rightarrow> string" where
  "get_document_id e u = take 12 (md5_hexdigest e u)"

definition get_filename_from_url :: "env \<Rightarrow> string \<Rightarrow> string" where
  "get_filename_from_url e u =
     (let filename = last_segment (urlparse_path e u)
      in if filename = [] then ''document_'' @ str_nat (time_time e) @ ''.pdf''
         else ensure_pdf filename)"

definition pending_steps :: "step \<Rightarrow> step_entry" where
  "pending_steps = (\<lambda>_. \<lparr> status = PENDING, timestamp = None \<rparr>)"

subsection \<open>Document registry\<close>

definition add_document ::
  "env \<Rightarrow> pipeline \<Rightarrow> string \<Rightarrow> string option \<Rightarrow> string option \<Rightarrow> string \<times> pipeline" where
  "add_document e p u doc_id_arg filename_arg =
     (let doc_id = (case doc_id_arg of None \<Rightarrow> get_document_id e u | Some d \<Rightarrow> d);
          filename = (case filename_arg of None \<Rightarrow> get_filename_from_url e u | Some f \<Rightarrow> f)
      in if documents (state p) doc_id = None then
           (let (t, p1) = now p;
                doc = \<lparr> url = u, original_filename = filename, d_metadata = empty_metadata,
                        d_status = PENDING, created_at = t, steps = pending_steps,
                        files = Map.empty, errors = [] \<rparr>;
                p2 = p1\<lparr>state := (state p1)\<lparr>documents := (documents (state p1))(doc_id \<mapsto> doc)\<rparr>\<rparr>
            in (doc_id, save_state p2))
         else (doc_id, p))"

text \<open>
  One descriptor of the batch input. \<open>None\<close> is an absent key; \<^verbatim>\<open>source\<close>, \<^verbatim>\<open>name\<close> and
  \<^verbatim>\<open>output_folder\<close> are strings, the rest any JSON value.
\<close>

record doc_info =
  i_source :: "string option"
  i_name :: "string option"
  i_document_type :: "json option"
  i_access :: "json option"
  i_language :: "json option"
  i_country :: "json option"
  i_publisher :: "json option"
  i_section :: "json option"
  i_output_folder :: "string option"

definition get_or :: "'a option \<Rightarrow> 'a \<Rightarrow> 'a" where
  "get_or v dflt = (case v of None \<Rightarrow> dflt | Some x \<Rightarrow> x)"

definition default_language :: json where
  "default_language = JList [JStr ''english'', JStr ''spanish'']"

text \<open>\<^verbatim>\<open>if not x\<close> for an optional string: absent or empty.\<close>

definition falsy_str :: "string option \<Rightarrow> bool" where
  "falsy_str v = (case v of None \<Rightarrow> True | Some s \<Rightarrow> s = [])"

definition add_document_from_json :: "env \<Rightarrow> pipeline \<Rightarrow> doc_info \<Rightarrow> string option \<times> pipeline" where
  "add_document_from_json e p info =
     (if falsy_str (i_source info) then (None, p)
      else if falsy_str (i_name info) then (None, p)
      else
        (let u = the (i_source info);
             filename = ensure_pdf (the (i_name info));
             doc_id = get_document_id e u
         in if documents (state p) doc_id \<noteq> None then (Some doc_id, p)
            else
              (let (t, p1) = now p;
                   doc = \<lparr> url = u, original_filename = filename,
                           d_metadata = \<lparr>
                             m_document_type = Some (get_or (i_document_type info) (JStr ''AIP'')),
                             m_access = Some (get_or (i_access info) (JStr ''public'')),
                             m_language = Some (get_or (i_language info) default_language),
                             m_country = Some (get_or (i_country info) (JStr ''unknown'')),
                             m_publisher = Some (get_or (i_publisher info) (JStr ''unknown'')),
                             m_section = Some (get_or (i_section info) (JStr ''GEN'')),
                             m_output_folder = Some (get_or (i_output_folder info) []) \<rparr>,
                           d_status = PENDING, created_at = t, steps = pending_steps,
                           files = Map.empty, errors = [] \<rparr>;
                   p2 = p1\<lparr>state := (state p1)\<lparr>documents := (documents (state p1))(doc_id \<mapsto> doc)\<rparr>\<rparr>
               in (Some doc_id, save_state p2))))"

definition get_document_status :: "pipeline \<Rightarrow> string \<Rightarrow> document option" where
  "get_document_status p doc_id = documents (state p) doc_id"

subsection \<open>Step-status update\<close>

text \<open>\<^verbatim>\<open>if x:\<close> for an optional string argument: the string when present and not empty.\<close>

definition truthy_str :: "string option \<Rightarrow> string option" where
  "truthy_str v = (case v of None \<Rightarrow> None | Some s \<Rightarrow> if s = [] then None else Some s)"

text \<open>
  The \<^verbatim>\<open>if/elif/elif\<close> chain at the end of \<^verbatim>\<open>update_step_status\<close>, on the list of
  step statuses and the status the record had before: when no branch applies the status
  is not assigned.
\<close>

definition overall_status :: "ProcessingStatus list \<Rightarrow> ProcessingStatus \<Rightarrow> ProcessingStatus" where
  "overall_status all_steps old =
     (if list_all (\<lambda>s. s = COMPLETED) all_steps then COMPLETED
      else if list_ex (\<lambda>s. s = FAILED) all_steps then FAILED
      else if list_all (\<lambda>s. s \<in> set [PENDING, COMPLETED]) all_steps then
        (if PENDING \<notin> set all_steps then DOWNLOADED else PENDING)
      else old)"

definition step_values :: "document \<Rightarrow> step_entry list" where
  "step_values doc = map (steps doc) [download, agentic_process, transform]"

definition update_step_status ::
  "pipeline \<Rightarrow> string \<Rightarrow> step \<Rightarrow> ProcessingStatus \<Rightarrow> string option \<Rightarrow> string option
     \<Rightarrow> py_error + pipeline" where
  "update_step_status p doc_id stp st file_path err =
     (case documents (state p) doc_id of
        None \<Rightarrow> Inl (ValueError (''Documento no encontrado: '' @ doc_id))
      | Some doc \<Rightarrow>
          (let (t1, p1) = now p;
               doc1 = doc\<lparr>steps := (steps doc)(stp := \<lparr> status = st, timestamp = Some t1 \<rparr>)\<rparr>;
               doc2 = (case truthy_str file_path of
                         Some f \<Rightarrow> doc1\<lparr>files := (files doc1)(stp \<mapsto> f)\<rparr>
                       | None \<Rightarrow> doc1);
               (doc3, p2) = (case truthy_str err of
                         Some m \<Rightarrow>
                           (let (t2, p') = now p1
                            in (doc2\<lparr>errors := errors doc2 @
                                  [\<lparr> e_step = stp, e_error = m, e_timestamp = t2 \<rparr>]\<rparr>, p'))
                       | None \<Rightarrow> (doc2, p1));
               all_steps = map status (step_values doc3);
               doc4 = doc3\<lparr>d_status := overall_status all_steps (d_status doc3)\<rparr>;
               p3 = p2\<lparr>state := (state p2)\<lparr>documents := (documents (state p2))(doc_id \<mapsto> doc4)\<rparr>\<rparr>
           in Inr (save_state p3)))"

subsection \<open>Construction\<close>

definition fresh_state :: "timestamp \<Rightarrow> pipeline_state" where
  "fresh_state t = \<lparr> s_created_at = t, documents = Map.empty, pipeline_version = ''1.0'',
     updated_at = None \<rparr>"

text \<open>
  \<^verbatim>\<open>__init__\<close>: the state directory depends on \<^verbatim>\<open>aip_country\<close>; the state is loaded from
  the state file. The arguments \<open>files0\<close> and \<open>clock0\<close> are the file system and the clock
  the process starts with.
\<close>

definition init :: "string \<Rightarrow> string option \<Rightarrow> (string \<rightharpoonup> file_content) \<Rightarrow> nat \<Rightarrow> pipeline" where
  "init wd aip_country files0 clock0 =
     (let state_dir = (case truthy_str aip_country of
                         Some c \<Rightarrow> path_join (path_join (path_join wd ''_AIPs'') c) ''state''
                       | None \<Rightarrow> path_join wd ''state'');
          p0 = \<lparr> work_dir = wd, state_file = path_join state_dir ''pipeline_state.json'',
                 state = fresh_state clock0, fs = files0, clock = clock0, invoked = [] \<rparr>;
          (s, p1) = load_state p0
      in p1\<lparr>state := s\<rparr>)"

subsection \<open>Output directories and file writes\<close>

definition get_output_dirs :: "pipeline \<Rightarrow> string \<Rightarrow> py_error + (string \<times> string \<times> string)" where
  "get_output_dirs p doc_id =
     (case get_document_status p doc_id of
        None \<Rightarrow> Inl (ValueError (''Documento no encontrado: '' @ doc_id))
      | Some doc \<Rightarrow>
          (let output_folder = get_or (m_output_folder (d_metadata doc)) []
           in if output_folder \<noteq> [] then
                Inr (path_join (path_join (work_dir p) output_folder) ''pdfs'',
                     path_join (path_join (work_dir p) output_folder) ''agentic_outputs'',
                     path_join (path_join (work_dir p) output_folder) ''pdf_processed'')
              else
                Inr (path_join (work_dir p) ''pdfs'',
                     path_join (work_dir p) ''agentic_outputs'',
                     path_join (work_dir p) ''pdf_processed'')))"

text \<open>
  \<^verbatim>\<open>with open(path, 'w') as f: json.dump(content, f)\<close>. \<open>Inl\<close> is an exception: its message
  and the manager as the exception leaves it. A dump that raises leaves the file that
  \<^verbatim>\<open>open\<close> created.
\<close>

definition write_file ::
  "env \<Rightarrow> pipeline \<Rightarrow> string \<Rightarrow> file_content \<Rightarrow> (string \<times> pipeline) + pipeline" where
  "write_file e p path content =
     (case write_result e path of
        WriteOk \<Rightarrow> Inr (p\<lparr>fs := (fs p)(path \<mapsto> content)\<rparr>)
      | OpenRaises m \<Rightarrow> Inl (m, p)
      | DumpRaises m \<Rightarrow> Inl (m, p\<lparr>fs := (fs p)(path \<mapsto> PartialFile)\<rparr>))"

text \<open>\<^verbatim>\<open>str(e)\<close> of an exception of the program's own.\<close>

fun error_message :: "py_error \<Rightarrow> string" where
  "error_message (KeyError k) = [CHR 0x27] @ k @ [CHR 0x27]"
| "error_message (ValueError m) = m"

text \<open>
  A call of \<^verbatim>\<open>update_step_status\<close> inside a \<^verbatim>\<open>try\<close> block: its exception is caught by
  \<^verbatim>\<open>except Exception\<close> like any other.
\<close>

definition update_in_try ::
  "pipeline \<Rightarrow> string \<Rightarrow> step \<Rightarrow> ProcessingStatus \<Rightarrow> string option \<Rightarrow> string option
     \<Rightarrow> (string \<times> pipeline) + pipeline" where
  "update_in_try p doc_id stp st file_path err =
     (case update_step_status p doc_id stp st file_path err of
        Inl ex \<Rightarrow> Inl (error_message ex, p)
      | Inr p' \<Rightarrow> Inr p')"

text \<open>
  The \<^verbatim>\<open>except Exception as e\<close> handler of a stage: the step is recorded Failed with the
  prefixed message and the stage returns False.
\<close>

definition stage_failed ::
  "pipeline \<Rightarrow> string \<Rightarrow> step \<Rightarrow> string \<Rightarrow> py_error + (bool \<times> pipeline)" where
  "stage_failed p doc_id stp error_msg =
     (case update_step_status p doc_id stp FAILED None (Some error_msg) of
        Inl ex \<Rightarrow> Inl ex
      | Inr p' \<Rightarrow> Inr (False, p'))"

text \<open>The idempotent skip: the artifact exists, the step is recorded Completed.\<close>

definition stage_skipped ::
  "pipeline \<Rightarrow> string \<Rightarrow> step \<Rightarrow> string \<Rightarrow> py_error + (bool \<times> pipeline)" where
  "stage_skipped p doc_id stp path =
     (case update_step_status p doc_id stp COMPLETED (Some path) None of
        Inl ex \<Rightarrow> Inl ex
      | Inr p' \<Rightarrow> Inr (True, p'))"

definition enter :: "step \<Rightarrow> string \<Rightarrow> pipeline \<Rightarrow> pipeline" where
  "enter stp doc_id p = p\<lparr>invoked := invoked p @ [(stp, doc_id)]\<rparr>"

subsection \<open>Step 1: download\<close>

definition download_try ::
  "env \<Rightarrow> pipeline \<Rightarrow> string \<Rightarrow> string \<Rightarrow> string \<Rightarrow> (string \<times> pipeline) + pipeline" where
  "download_try e p doc_id u pdf_path =
     (case requests_get e u of
        Inl m \<Rightarrow> Inl (m, p)
      | Inr body \<Rightarrow>
          (case write_file e p pdf_path (PdfFile body) of
             Inl ex \<Rightarrow> Inl ex
           | Inr p1 \<Rightarrow> update_in_try p1 doc_id download COMPLETED (Some pdf_path) None))"

definition download_pdf :: "env \<Rightarrow> pipeline \<Rightarrow> string \<Rightarrow> py_error + (bool \<times> pipeline)" where
  "download_pdf e p0 doc_id =
     (let p = enter download doc_id p0
      in case get_document_status p doc_id of
           None \<Rightarrow> Inr (False, p)
         | Some doc \<Rightarrow>
             (case get_output_dirs p doc_id of
                Inl ex \<Rightarrow> Inl ex
              | Inr (pdfs_dir, _, _) \<Rightarrow>
                  (let pdf_path = path_join pdfs_dir (original_filename doc)
                   in if fs p pdf_path \<noteq> None then stage_skipped p doc_id download pdf_path
                      else
                        (case download_try e p doc_id (url doc) pdf_path of
                           Inr p' \<Rightarrow> Inr (True, p')
                         | Inl (m, pe) \<Rightarrow>
                             stage_failed pe doc_id download (''Error descargando PDF: '' @ m)))))"

subsection \<open>Step 2: extraction\<close>

text \<open>\<^verbatim>\<open>grounding_data['page'] = grounding.page + 1\<close>, the box as it is.\<close>

definition convert_grounding :: "ext_grounding \<Rightarrow> grounding_data" where
  "convert_grounding g =
     \<lparr> gd_page = (case g_page g of None \<Rightarrow> None | Some pg \<Rightarrow> Some (pg + 1)), gd_bbox = g_box g \<rparr>"

text \<open>The key \<^verbatim>\<open>grounding\<close> is set only for a chunk that has groundings.\<close>

definition convert_groundings :: "ext_grounding list \<Rightarrow> grounding_data list option" where
  "convert_groundings gs = (if gs \<noteq> [] then Some (map convert_grounding gs) else None)"

definition is_figure :: "ext_chunk \<Rightarrow> bool" where
  "is_figure c = contains (lower (chunk_type c)) ''figure''"

definition chunk_data_of :: "nat \<Rightarrow> ext_chunk \<Rightarrow> chunk_data" where
  "chunk_data_of i c =
     \<lparr> ch_id = ''chunk_'' @ str_nat i, ch_content = get_or (c_text c) (c_str c),
       ch_type = chunk_type c, ch_grounding = convert_groundings (c_grounding c) \<rparr>"

definition figure_data_of :: "nat \<Rightarrow> ext_chunk \<Rightarrow> figure_data" where
  "figure_data_of i c =
     \<lparr> fg_id = ''figure_'' @ str_nat i, fg_text = get_or (c_text c) [],
       fg_type = chunk_type c, fg_grounding = convert_groundings (c_grounding c) \<rparr>"

text \<open>
  \<^verbatim>\<open>for i, chunk in enumerate(doc_result.chunks)\<close>: the figures are set aside, the others
  are converted, each with its index in the whole sequence.
\<close>

fun split_chunks :: "nat \<Rightarrow> ext_chunk list \<Rightarrow> chunk_data list \<times> ext_chunk list" where
  "split_chunks i [] = ([], [])"
| "split_chunks i (c # cs) =
     (let (chunks_list, figure_chunks) = split_chunks (Suc i) cs
      in if is_figure c then (chunks_list, c # figure_chunks)
         else (chunk_data_of i c # chunks_list, figure_chunks))"

text \<open>\<^verbatim>\<open>for i, figure_chunk in enumerate(figure_chunks)\<close>\<close>

fun convert_figures :: "nat \<Rightarrow> ext_chunk list \<Rightarrow> figure_data list" where
  "convert_figures i [] = []"
| "convert_figures i (c # cs) = figure_data_of i c # convert_figures (Suc i) cs"

text \<open>Only \<^verbatim>\<open>result[0]\<close> is read.\<close>

definition build_agentic_output ::
  "string \<Rightarrow> document \<Rightarrow> string \<Rightarrow> timestamp \<Rightarrow> ext_document list \<Rightarrow> agentic_output" where
  "build_agentic_output doc_id doc pdf_path t result =
     (let markdown_text = (case result of [] \<Rightarrow> [] | r # _ \<Rightarrow> get_or (markdown r) []);
          (chunks_list, figure_chunks) =
             (case result of [] \<Rightarrow> ([], []) | r # _ \<Rightarrow> split_chunks 0 (chunks r))
      in \<lparr> ao_metadata = \<lparr> am_document_id = doc_id, am_source_url = url doc,
               am_pdf_path = pdf_path, am_processed_date = t,
               am_total_chunks = length chunks_list, am_total_figures = length figure_chunks,
               am_total_characters = length markdown_text \<rparr>,
            ao_document = \<lparr> ad_id = doc_id, ad_filename = original_filename doc,
               ad_markdown = markdown_text, ad_chunks = chunks_list,
               ad_figures = convert_figures 0 figure_chunks \<rparr> \<rparr>)"

definition agentic_try ::
  "env \<Rightarrow> pipeline \<Rightarrow> string \<Rightarrow> document \<Rightarrow> string \<Rightarrow> string \<Rightarrow> (string \<times> pipeline) + pipeline" where
  "agentic_try e p doc_id doc pdf_path output_json_path =
     (case parse e pdf_path of
        Inl m \<Rightarrow> Inl (m, p)
      | Inr result \<Rightarrow>
          (let (t, p1) = now p;
               agentic_output = build_agentic_output doc_id doc pdf_path t result
           in case write_file e p1 output_json_path (AgenticFile agentic_output) of
                Inl ex \<Rightarrow> Inl ex
              | Inr p2 \<Rightarrow>
                  update_in_try p2 doc_id agentic_process COMPLETED (Some output_json_path) None))"

definition process_with_agentic_doc ::
  "env \<Rightarrow> pipeline \<Rightarrow> string \<Rightarrow> py_error + (bool \<times> pipeline)" where
  "process_with_agentic_doc e p0 doc_id =
     (let p = enter agentic_process doc_id p0
      in case get_document_status p doc_id of
           None \<Rightarrow> Inr (False, p)
         | Some doc \<Rightarrow>
             if status (steps doc download) \<noteq> COMPLETED then Inr (False, p)
             else
               (case files doc download of
                  None \<Rightarrow> Inl (KeyError ''download'')
                | Some pdf_path \<Rightarrow>
                    (case get_output_dirs p doc_id of
                       Inl ex \<Rightarrow> Inl ex
                     | Inr (_, agentic_outputs_dir, _) \<Rightarrow>
                         (let output_json_path =
                                path_join agentic_outputs_dir
                                  (rsplit_dot (original_filename doc) @ ''.json'')
                          in if fs p output_json_path \<noteq> None then
                               stage_skipped p doc_id agentic_process output_json_path
                             else
                               (case agentic_try e p doc_id doc pdf_path output_json_path of
                                  Inr p' \<Rightarrow> Inr (True, p')
                                | Inl (m, pe) \<Rightarrow>
                                    stage_failed pe doc_id agentic_process
                                      (''Error procesando con Agentic-doc: '' @ m))))))"

subsection \<open>Step 3: structuring\<close>

text \<open>
  \<^verbatim>\<open>pages_dict\<close> and \<^verbatim>\<open>figures_dict\<close>: a dictionary from page number to a list, in insertion
  order. \<^verbatim>\<open>if k not in d: d[k] = []\<close> followed by \<^verbatim>\<open>d[k].append(v)\<close>:
\<close>

type_synonym 'a page_dict = "(int \<times> 'a list) list"

definition dict_append :: "int \<Rightarrow> 'a \<Rightarrow> 'a page_dict \<Rightarrow> 'a page_dict" where
  "dict_append k v d =
     (if k \<in> set (map fst d) then map (\<lambda>(k', vs). if k' = k then (k', vs @ [v]) else (k', vs)) d
      else d @ [(k, [v])])"

text \<open>\<^verbatim>\<open>d.get(k, [])\<close>\<close>

definition dict_get :: "'a page_dict \<Rightarrow> int \<Rightarrow> 'a list" where
  "dict_get d k = (case map_of d k of None \<Rightarrow> [] | Some vs \<Rightarrow> vs)"

text \<open>\<^verbatim>\<open>ground.get("page", 1)\<close>\<close>

definition ground_page :: "grounding_data \<Rightarrow> int" where
  "ground_page g = get_or (gd_page g) 1"

text \<open>
  One unit enters the dictionary once per grounding, under that grounding's page; a unit
  without grounding enters under page 1.
\<close>

definition add_unit :: "grounding_data list option \<Rightarrow> 'a \<Rightarrow> 'a page_dict \<Rightarrow> 'a page_dict" where
  "add_unit gr u d =
     (let grounding = get_or gr []
      in if grounding \<noteq> [] then fold (\<lambda>g. dict_append (ground_page g) u) grounding d
         else dict_append 1 u d)"

definition group_chunks :: "chunk_data list \<Rightarrow> chunk_data page_dict" where
  "group_chunks cs = fold (\<lambda>c. add_unit (ch_grounding c) c) cs []"

definition group_figures :: "figure_data list \<Rightarrow> figure_data page_dict" where
  "group_figures figs = fold (\<lambda>f. add_unit (fg_grounding f) f) figs []"

text \<open>\<^verbatim>\<open>total_pages = max(pages_dict.keys()) if pages_dict else 1\<close>\<close>

definition total_pages_of :: "'a page_dict \<Rightarrow> int" where
  "total_pages_of d = (if d \<noteq> [] then Max (set (map fst d)) else 1)"

text \<open>\<^verbatim>\<open>"\n".join(xs)\<close>\<close>

fun join_lines :: "string list \<Rightarrow> string" where
  "join_lines [] = []"
| "join_lines [x] = x"
| "join_lines (x # y # ys) = x @ [CHR 0x0A] @ join_lines (y # ys)"

text \<open>The ASCII characters \<^verbatim>\<open>str.strip()\<close> removes.\<close>

definition is_space :: "char \<Rightarrow> bool" where
  "is_space c = (let n = (of_char c :: nat) in (9 \<le> n \<and> n \<le> 13) \<or> (28 \<le> n \<and> n \<le> 32))"

text \<open>\<^verbatim>\<open>not s or not s.strip()\<close>\<close>

definition is_blank :: "string \<Rightarrow> bool" where
  "is_blank s = list_all is_space s"

definition ocr_prompt :: "string \<Rightarrow> string \<Rightarrow> string" where
  "ocr_prompt what body =
     ''This is the '' @ what @ '' OCR in markdown:'' @ [CHR 0x0A] @
     ''====MARKDOWN===='' @ [CHR 0x0A] @
     body @ [CHR 0x0A] @
     ''====END MARKDOWN===='' @ [CHR 0x0A] @
     ''Convert this into a structured JSON response with the following fields:'' @ [CHR 0x0A] @
     ''- file_name: string'' @ [CHR 0x0A] @
     ''- topics: list of strings'' @ [CHR 0x0A] @
     ''- languages: list of strings'' @ [CHR 0x0A] @
     ''- description: string'' @ [CHR 0x0A] @
     ''- ocr_contents: dictionary with the main extracted information'' @ [CHR 0x0A] @
     ''Respond only with the JSON object.''"

definition page_topics :: json where
  "page_topics = JList [JStr ''aviation'', JStr ''navigation'', JStr ''charts'']"

definition empty_page_record :: "string \<Rightarrow> metadata \<Rightarrow> json" where
  "empty_page_record doc_name md =
     JDict [(''file_name'', JStr doc_name), (''topics'', page_topics),
            (''languages'', get_or (m_language md) default_language),
            (''description'', JStr ''Empty page''), (''ocr_contents'', JDict [])]"

definition page_fallback :: "string \<Rightarrow> string \<Rightarrow> metadata \<Rightarrow> json" where
  "page_fallback doc_name page_txt md =
     JDict [(''file_name'', JStr doc_name), (''topics'', page_topics),
            (''languages'', get_or (m_language md) default_language),
            (''description'', JStr ''Page content from aeronautical document''),
            (''ocr_contents'', JDict [(''raw_content'', JStr (take 500 page_txt))])]"

definition mistral_structure_page :: "env \<Rightarrow> string \<Rightarrow> string \<Rightarrow> metadata \<Rightarrow> string \<Rightarrow> json" where
  "mistral_structure_page e doc_name page_txt md source =
     (if is_blank page_txt then empty_page_record doc_name md
      else
        (case chat_complete e (ocr_prompt ''pages'' page_txt) 4000 of
           Some j \<Rightarrow> j
         | None \<Rightarrow> page_fallback doc_name page_txt md))"

definition image_fallback :: "string \<Rightarrow> nat \<Rightarrow> int \<Rightarrow> metadata \<Rightarrow> json" where
  "image_fallback image_text index page_num md =
     JDict [(''file_name'', JStr (''imagen_p'' @ str_int page_num @ ''_i'' @ str_nat index @ ''.jpg'')),
            (''topics'', JList [JStr ''aeronautical_charts'', JStr ''navigation'']),
            (''languages'', get_or (m_language md) default_language),
            (''description'', JStr ''Image from aeronautical document''),
            (''ocr_contents'', JDict [(''raw_content'', JStr (take 200 image_text))])]"

definition mistral_structure_image :: "env \<Rightarrow> string \<Rightarrow> nat \<Rightarrow> int \<Rightarrow> metadata \<Rightarrow> json option" where
  "mistral_structure_image e image_text index page_num md =
     (if is_blank image_text then None
      else
        (case chat_complete e (ocr_prompt ''image'' image_text) 3000 of
           Some j \<Rightarrow> Some j
         | None \<Rightarrow> Some (image_fallback image_text index page_num md)))"

text \<open>
  \<^verbatim>\<open>for i, fig in enumerate(page_figures)\<close>: a figure whose record is absent or falsy is
  not appended.
\<close>

fun structure_figures :: "env \<Rightarrow> int \<Rightarrow> metadata \<Rightarrow> nat \<Rightarrow> figure_data list \<Rightarrow> json list" where
  "structure_figures e page_num md i [] = []"
| "structure_figures e page_num md i (fig # figs) =
     (case mistral_structure_image e (fg_text fig) i page_num md of
        Some j \<Rightarrow> if truthy j then j # structure_figures e page_num md (Suc i) figs
                  else structure_figures e page_num md (Suc i) figs
      | None \<Rightarrow> structure_figures e page_num md (Suc i) figs)"

text \<open>The body of \<^verbatim>\<open>for page_num in range(1, total_pages + 1)\<close>.\<close>

definition build_page ::
  "env \<Rightarrow> string \<Rightarrow> metadata \<Rightarrow> string \<Rightarrow> chunk_data page_dict \<Rightarrow> figure_data page_dict
     \<Rightarrow> int \<Rightarrow> page_obj" where
  "build_page e doc_name md source pages_dict figures_dict page_num =
     (let page_chunks = dict_get pages_dict page_num;
          page_txt = join_lines (map ch_content page_chunks);
          structured_page = mistral_structure_page e doc_name page_txt md source;
          page_figures = dict_get figures_dict page_num;
          structured_images = structure_figures e page_num md 0 page_figures
      in \<lparr> page_number = page_num, page_text = page_txt,
            structured_page_content = structured_page,
            structured_image_content = structured_images, text_embedding = [] \<rparr>)"

text \<open>
  What \<^verbatim>\<open>_mistral_transform\<close> reads of the loaded extract artifact: the source url, the
  chunks, the figures.
\<close>

record agentic_view =
  v_source_url :: string
  v_chunks :: "chunk_data list"
  v_figures :: "figure_data list"

definition mistral_transform ::
  "env \<Rightarrow> pipeline \<Rightarrow> string \<Rightarrow> agentic_view \<Rightarrow> document \<Rightarrow> pdf_processed option \<times> pipeline" where
  "mistral_transform e p doc_id agentic_json doc =
     (let md = d_metadata doc;
          doc_name = rsplit_dot (original_filename doc);
          source = v_source_url agentic_json;
          pages_dict = group_chunks (v_chunks agentic_json);
          figures_dict = group_figures (v_figures agentic_json);
          total_pages = total_pages_of pages_dict;
          content = map (build_page e doc_name md source pages_dict figures_dict) [1..total_pages];
          (t, p1) = now p
      in (Some \<lparr> pp_metadata = \<lparr> pm_document_name = doc_name, pm_total_pages = total_pages,
                    pm_document_type = get_or (m_document_type md) (JStr ''AIP''),
                    pm_source = source,
                    pm_processing_stack = [''agentic-doc'', ''mistral-codestral''],
                    pm_processed_date = t,
                    pm_country = get_or (m_country md) (JStr ''unknown''),
                    pm_publisher = get_or (m_publisher md) (JStr ''unknown''),
                    pm_section = get_or (m_section md) (JStr ''GEN''),
                    pm_access = get_or (m_access md) (JStr ''public''),
                    pm_language = get_or (m_language md) default_language,
                    pm_total_chunks = length (v_chunks agentic_json),
                    pm_total_figures = length (v_figures agentic_json) \<rparr>,
                 pp_content = content \<rparr>, p1))"

text \<open>
  \<^verbatim>\<open>json.load\<close> of the extract artifact, and the \<^verbatim>\<open>.get\<close> defaults of
  \<^verbatim>\<open>_mistral_transform\<close> on it: a JSON document of another shape has no chunks and no
  figures; a missing file, an incomplete one or one that is not JSON raises.
\<close>

definition load_agentic_json :: "pipeline \<Rightarrow> string \<Rightarrow> string + agentic_view" where
  "load_agentic_json p path =
     (case fs p path of
        None \<Rightarrow> Inl (''[Errno 2] No such file or directory: '' @ path)
      | Some (AgenticFile a) \<Rightarrow>
          Inr \<lparr> v_source_url = am_source_url (ao_metadata a),
                v_chunks = ad_chunks (ao_document a), v_figures = ad_figures (ao_document a) \<rparr>
      | Some (StateFile _) \<Rightarrow> Inr \<lparr> v_source_url = ''unknown'', v_chunks = [], v_figures = [] \<rparr>
      | Some (ProcessedFile _) \<Rightarrow> Inr \<lparr> v_source_url = ''unknown'', v_chunks = [], v_figures = [] \<rparr>
      | Some (PdfFile _) \<Rightarrow> Inl ''Expecting value: line 1 column 1 (char 0)''
      | Some PartialFile \<Rightarrow> Inl ''Expecting value: line 1 column 1 (char 0)'')"

text \<open>
  \<^verbatim>\<open>doc["status"] = ProcessingStatus.COMPLETED; self._save_state()\<close> at the end of a
  successful transformation.
\<close>

definition mark_completed :: "pipeline \<Rightarrow> string \<Rightarrow> (string \<times> pipeline) + pipeline" where
  "mark_completed p doc_id =
     (case documents (state p) doc_id of
        None \<Rightarrow> Inl (error_message (KeyError doc_id), p)
      | Some doc \<Rightarrow>
          Inr (save_state (p\<lparr>state := (state p)\<lparr>documents :=
                 (documents (state p))(doc_id \<mapsto> doc\<lparr>d_status := COMPLETED\<rparr>)\<rparr>\<rparr>)))"

text \<open>
  The \<^verbatim>\<open>try\<close> block of \<^verbatim>\<open>transform_to_pdf_processed\<close>: \<open>Inl\<close> an exception, \<open>Inr\<close> the
  value returned.
\<close>

definition transform_try ::
  "env \<Rightarrow> pipeline \<Rightarrow> string \<Rightarrow> document \<Rightarrow> string \<Rightarrow> string
     \<Rightarrow> (string \<times> pipeline) + (bool \<times> pipeline)" where
  "transform_try e p doc_id doc agentic_json_path pdf_processed_path =
     (case load_agentic_json p agentic_json_path of
        Inl m \<Rightarrow> Inl (m, p)
      | Inr agentic_json \<Rightarrow>
          (case mistral_transform e p doc_id agentic_json doc of
             (None, p1) \<Rightarrow>
               (case update_in_try p1 doc_id transform FAILED None
                       (Some (''Error en transformaci'' @ [CHR 0xC3, CHR 0xB3] @ ''n de Mistral'')) of
                  Inl ex \<Rightarrow> Inl ex
                | Inr p2 \<Rightarrow> Inr (False, p2))
           | (Some pdf_processed, p1) \<Rightarrow>
               (case write_file e p1 pdf_processed_path (ProcessedFile pdf_processed) of
                  Inl ex \<Rightarrow> Inl ex
                | Inr p2 \<Rightarrow>
                    (case update_in_try p2 doc_id transform COMPLETED (Some pdf_processed_path) None of
                       Inl ex \<Rightarrow> Inl ex
                     | Inr p3 \<Rightarrow>
                         (case mark_completed p3 doc_id of
                            Inl ex \<Rightarrow> Inl ex
                          | Inr p4 \<Rightarrow> Inr (True, p4))))))"

definition transform_to_pdf_processed ::
  "env \<Rightarrow> pipeline \<Rightarrow> string \<Rightarrow> py_error + (bool \<times> pipeline)" where
  "transform_to_pdf_processed e p0 doc_id =
     (let p = enter transform doc_id p0
      in case get_document_status p doc_id of
           None \<Rightarrow> Inr (False, p)
         | Some doc \<Rightarrow>
             if status (steps doc agentic_process) \<noteq> COMPLETED then Inr (False, p)
             else
               (case files doc agentic_process of
                  None \<Rightarrow> Inl (KeyError ''agentic_process'')
                | Some agentic_json_path \<Rightarrow>
                    (case get_output_dirs p doc_id of
                       Inl ex \<Rightarrow> Inl ex
                     | Inr (_, _, pdf_processed_dir) \<Rightarrow>
                         (let pdf_processed_path =
                                path_join pdf_processed_dir
                                  (rsplit_dot (original_filename doc) @ ''.json'')
                          in if fs p pdf_processed_path \<noteq> None then
                               stage_skipped p doc_id transform pdf_processed_path
                             else
                               (case transform_try e p doc_id doc agentic_json_path
                                       pdf_processed_path of
                                  Inr r \<Rightarrow> Inr r
                                | Inl (m, pe) \<Rightarrow>
                                    stage_failed pe doc_id transform
                                      (''Error transformando: '' @ m))))))"

subsection \<open>Orchestration\<close>

datatype doc_result = Result_failed step | Result_completed | Result_recovered

record results =
  started_at :: timestamp
  total_documents :: nat
  r_documents :: "string \<rightharpoonup> doc_result"
  completed_at :: "timestamp option"

text \<open>\<^verbatim>\<open>doc_ids = [self.add_document(url) for url in urls]\<close>\<close>

fun add_documents :: "env \<Rightarrow> pipeline \<Rightarrow> string list \<Rightarrow> string list \<times> pipeline" where
  "add_documents e p [] = ([], p)"
| "add_documents e p (u # us) =
     (let (doc_id, p1) = add_document e p u None None;
          (doc_ids, p2) = add_documents e p1 us
      in (doc_id # doc_ids, p2))"

text \<open>
  The body of the loop of \<^verbatim>\<open>process_all_documents\<close>: the three stages in order, stopping
  at the first that returns False.
\<close>

definition process_document :: "env \<Rightarrow> pipeline \<Rightarrow> string \<Rightarrow> py_error + (doc_result \<times> pipeline)" where
  "process_document e p doc_id =
     (case download_pdf e p doc_id of
        Inl ex \<Rightarrow> Inl ex
      | Inr (ok1, p1) \<Rightarrow>
          if \<not> ok1 then Inr (Result_failed download, p1)
          else
            (case process_with_agentic_doc e p1 doc_id of
               Inl ex \<Rightarrow> Inl ex
             | Inr (ok2, p2) \<Rightarrow>
                 if \<not> ok2 then Inr (Result_failed agentic_process, p2)
                 else
                   (case transform_to_pdf_processed e p2 doc_id of
                      Inl ex \<Rightarrow> Inl ex
                    | Inr (ok3, p3) \<Rightarrow>
                        if \<not> ok3 then Inr (Result_failed transform, p3)
                        else Inr (Result_completed, p3))))"

fun process_loop ::
  "env \<Rightarrow> pipeline \<Rightarrow> (string \<rightharpoonup> doc_result) \<Rightarrow> string list
     \<Rightarrow> py_error + ((string \<rightharpoonup> doc_result) \<times> pipeline)" where
  "process_loop e p rs [] = Inr (rs, p)"
| "process_loop e p rs (doc_id # doc_ids) =
     (case process_document e p doc_id of
        Inl ex \<Rightarrow> Inl ex
      | Inr (r, p1) \<Rightarrow> process_loop e p1 (rs(doc_id \<mapsto> r)) doc_ids)"

definition process_all_documents ::
  "env \<Rightarrow> pipeline \<Rightarrow> string list \<Rightarrow> py_error + (results \<times> pipeline)" where
  "process_all_documents e p urls =
     (let (doc_ids, p1) = add_documents e p urls;
          (t0, p2) = now p1
      in case process_loop e p2 Map.empty doc_ids of
           Inl ex \<Rightarrow> Inl ex
         | Inr (rs, p3) \<Rightarrow>
             (let (t1, p4) = now p3
              in Inr (\<lparr> started_at = t0, total_documents = length doc_ids, r_documents = rs,
                        completed_at = Some t1 \<rparr>, p4)))"

text \<open>
  \<^verbatim>\<open>for doc_info in documents: doc_id = self.add_document_from_json(doc_info)\<close>,
  keeping the identifiers that are not \<^verbatim>\<open>None\<close> (nor empty).
\<close>

fun add_documents_from_json :: "env \<Rightarrow> pipeline \<Rightarrow> doc_info list \<Rightarrow> string list \<times> pipeline" where
  "add_documents_from_json e p [] = ([], p)"
| "add_documents_from_json e p (info # infos) =
     (let (r, p1) = add_document_from_json e p info;
          (doc_ids, p2) = add_documents_from_json e p1 infos
      in case truthy_str r of
           Some doc_id \<Rightarrow> (doc_id # doc_ids, p2)
         | None \<Rightarrow> (doc_ids, p2))"

text \<open>
  The body of the loop of \<^verbatim>\<open>process_all_documents_from_json\<close>. \<^verbatim>\<open>doc_status\<close> is the
  record itself, not a copy: each test reads the ledger as the stage before left it.
\<close>

definition step_done :: "pipeline \<Rightarrow> string \<Rightarrow> step \<Rightarrow> bool" where
  "step_done p doc_id stp =
     (case documents (state p) doc_id of
        None \<Rightarrow> False
      | Some doc \<Rightarrow> status (steps doc stp) = COMPLETED)"

definition process_document_from_json ::
  "env \<Rightarrow> pipeline \<Rightarrow> string \<Rightarrow> py_error + (doc_result \<times> pipeline)" where
  "process_document_from_json e p doc_id =
     (case documents (state p) doc_id of
        None \<Rightarrow> Inl (KeyError doc_id)
      | Some doc_status \<Rightarrow>
          if d_status doc_status = COMPLETED then Inr (Result_recovered, p)
          else
            (case (if \<not> step_done p doc_id download then download_pdf e p doc_id
                   else Inr (True, p)) of
               Inl ex \<Rightarrow> Inl ex
             | Inr (ok1, p1) \<Rightarrow>
                 if \<not> ok1 then Inr (Result_failed download, p1)
                 else
                   (case (if \<not> step_done p1 doc_id agentic_process
                          then process_with_agentic_doc e p1 doc_id else Inr (True, p1)) of
                      Inl ex \<Rightarrow> Inl ex
                    | Inr (ok2, p2) \<Rightarrow>
                        if \<not> ok2 then Inr (Result_failed agentic_process, p2)
                        else
                          (case (if \<not> step_done p2 doc_id transform
                                 then transform_to_pdf_processed e p2 doc_id else Inr (True, p2)) of
                             Inl ex \<Rightarrow> Inl ex
                           | Inr (ok3, p3) \<Rightarrow>
                               if \<not> ok3 then Inr (Result_failed transform, p3)
                               else Inr (Result_completed, p3)))))"

fun process_loop_from_json ::
  "env \<Rightarrow> pipeline \<Rightarrow> (string \<rightharpoonup> doc_result) \<Rightarrow> string list
     \<Rightarrow> py_error + ((string \<rightharpoonup> doc_result) \<times> pipeline)" where
  "process_loop_from_json e p rs [] = Inr (rs, p)"
| "process_loop_from_json e p rs (doc_id # doc_ids) =
     (case process_document_from_json e p doc_id of
        Inl ex \<Rightarrow> Inl ex
      | Inr (r, p1) \<Rightarrow> process_loop_from_json e p1 (rs(doc_id \<mapsto> r)) doc_ids)"

definition process_all_documents_from_json ::
  "env \<Rightarrow> pipeline \<Rightarrow> doc_info list \<Rightarrow> py_error + (results \<times> pipeline)" where
  "process_all_documents_from_json e p infos =
     (let (doc_ids, p1) = add_documents_from_json e p infos;
          (t0, p2) = now p1
      in case process_loop_from_json e p2 Map.empty doc_ids of
           Inl ex \<Rightarrow> Inl ex
         | Inr (rs, p3) \<Rightarrow>
             (let (t1, p4) = now p3
              in Inr (\<lparr> started_at = t0, total_documents = length doc_ids, r_documents = rs,
                        completed_at = Some t1 \<rparr>, p4)))"

subsection \<open>Vocabulary of the properties\<close>




text \<open>The record a step-status update leaves, when the clock read \<open>t\<close> at its start.\<close>

definition updated_document ::
  "document \<Rightarrow> step \<Rightarrow> ProcessingStatus \<Rightarrow> string option \<Rightarrow> string option \<Rightarrow> timestamp
     \<Rightarrow> document" where
  "updated_document d stp st fp err t =
     d\<lparr> steps := (steps d)(stp := \<lparr>status = st, timestamp = Some t\<rparr>),
        files := (case truthy_str fp of Some f \<Rightarrow> (files d)(stp \<mapsto> f) | None \<Rightarrow> files d),
        errors := (case truthy_str err of
                     Some m \<Rightarrow> errors d @ [\<lparr>e_step = stp, e_error = m, e_timestamp = Suc t\<rparr>]
                   | None \<Rightarrow> errors d),
        d_status := overall_status
          (map status (map ((steps d)(stp := \<lparr>status = st, timestamp = Some t\<rparr>))
             [download, agentic_process, transform])) (d_status d) \<rparr>"

text \<open>The state file holds the state the manager has in memory.\<close>

definition persisted :: "pipeline \<Rightarrow> bool" where
  "persisted p = (fs p (state_file p) = Some (StateFile (state p)))"

subsection \<open>Concrete runs\<close>

text \<open>
  An environment in which every external call succeeds: the identifier of a locator is
  its first twelve characters, the download returns a body, the extraction returns one
  document with a text chunk on page 0 and a figure on page 1, the language model answers
  every prompt with the same object.
\<close>

definition chunk0 :: ext_chunk where
  "chunk0 = \<lparr> chunk_type = ''ChunkType.text'', c_text = Some ''Runway 09/27'', c_str = ''chunk'',
     c_grounding = [\<lparr> g_page = Some 0, g_box = None \<rparr>] \<rparr>"

definition figure0 :: ext_chunk where
  "figure0 = \<lparr> chunk_type = ''ChunkType.figure'', c_text = Some ''Chart'', c_str = ''chunk'',
     c_grounding = [\<lparr> g_page = Some 1, g_box = None \<rparr>] \<rparr>"

definition answer0 :: json where
  "answer0 = JDict [(''file_name'', JStr ''a'')]"

definition env0 :: env where
  "env0 = \<lparr> md5_hexdigest = (\<lambda>u. u), urlparse_path = (\<lambda>u. u), time_time = 0,
     requests_get = (\<lambda>u. Inr ''%PDF''),
     parse = (\<lambda>path. Inr [\<lparr> markdown = Some ''Runway 09/27'', chunks = [chunk0, figure0] \<rparr>]),
     chat_complete = (\<lambda>prompt n. Some answer0), write_result = (\<lambda>path. WriteOk) \<rparr>"

text \<open>A fresh manager on an empty file system, and the same after one registration.\<close>

definition pipeline0 :: pipeline where
  "pipeline0 = init ''work'' None Map.empty 0"

definition pipeline1 :: pipeline where
  "pipeline1 = snd (add_document env0 pipeline0 ''u/a.pdf'' None None)"








text \<open>
  What a run may change in a record. \<open>record_frame A i d d'\<close>: the record \<open>d'\<close> of document
  \<open>i\<close> has the locator, name, metadata and creation time of \<open>d\<close>; its error list is that
  of \<open>d\<close>, possibly longer at the end; its step entries and recorded paths are those of \<open>d\<close>
  for every step \<open>s\<close> with \<open>(s, i)\<close> outside \<open>A\<close>; and it is \<open>d\<close> itself when \<open>A\<close> mentions no
  step of \<open>i\<close>.
\<close>

definition record_frame :: "(step \<times> string) set \<Rightarrow> string \<Rightarrow> document \<Rightarrow> document \<Rightarrow> bool" where
  "record_frame A i d d' =
     (url d' = url d \<and> original_filename d' = original_filename d \<and>
      d_metadata d' = d_metadata d \<and> created_at d' = created_at d \<and>
      (\<exists>es. errors d' = errors d @ es) \<and>
      (\<forall>s. (s, i) \<notin> A \<longrightarrow> steps d' s = steps d s \<and> files d' s = files d s) \<and>
      ((\<forall>s. (s, i) \<notin> A) \<longrightarrow> d' = d))"

text \<open>
  What a run may change in the manager. \<open>frame A p p'\<close>: from \<open>p\<close> to \<open>p'\<close> the directories
  are the same; every file that existed, the state file apart, has kept its content; the
  stage executors entered since are among the pairs \<open>A\<close> of a step and a document; every
  record of \<open>p\<close> is still there, changed within \<open>record_frame\<close>.
\<close>

definition frame :: "(step \<times> string) set \<Rightarrow> pipeline \<Rightarrow> pipeline \<Rightarrow> bool" where
  "frame A p p' =
     (work_dir p' = work_dir p \<and> state_file p' = state_file p \<and>
      (\<forall>path. path \<noteq> state_file p \<longrightarrow> fs p path \<noteq> None \<longrightarrow> fs p' path = fs p path) \<and>
      (\<exists>tr. invoked p' = invoked p @ tr \<and> set tr \<subseteq> A) \<and>
      (\<forall>i d. documents (state p) i = Some d \<longrightarrow>
         (\<exists>d'. documents (state p') i = Some d' \<and> record_frame A i d d')))"

text \<open>Every step recorded Completed has its artifact path recorded.\<close>

definition paths_recorded :: "pipeline \<Rightarrow> bool" where
  "paths_recorded p =
     (\<forall>i d s. documents (state p) i = Some d \<longrightarrow> status (steps d s) = COMPLETED \<longrightarrow>
        files d s \<noteq> None)"

text \<open>The stage executors entered between two managers.\<close>

definition new_calls :: "pipeline \<Rightarrow> pipeline \<Rightarrow> (step \<times> string) list" where
  "new_calls p p' = drop (length (invoked p)) (invoked p')"

text \<open>Every record of \<open>p\<close> is a record of \<open>p'\<close> whose error list starts with the old one.\<close>

definition errors_kept :: "pipeline \<Rightarrow> pipeline \<Rightarrow> bool" where
  "errors_kept p p' =
     (\<forall>i d. documents (state p) i = Some d \<longrightarrow>
        (\<exists>d' es. documents (state p') i = Some d' \<and> errors d' = errors d @ es))"

text \<open>The environment \<open>env0\<close> with the network down.\<close>

definition env_down :: env where
  "env_down = env0\<lparr> requests_get := (\<lambda>u. Inl ''timeout'') \<rparr>"

section \<open>Properties\<close>

subsection \<open>Step-status update and the derived status\<close>

lemma documents_save_state [simp]: "documents (state (save_state p)) = documents (state p)"
  by (simp add: save_state_def now_def Let_def)

lemma persisted_save_state [simp]: "persisted (save_state p)"
  by (simp add: save_state_def now_def Let_def persisted_def)


lemma update_step_status_Inr:
  assumes "update_step_status p doc_id stp st fp err = Inr p'"
  shows "\<exists>d. documents (state p) doc_id = Some d \<and>
           documents (state p') =
             (documents (state p))(doc_id \<mapsto> updated_document d stp st fp err (clock p))"
  using assms
  by (auto simp add: update_step_status_def updated_document_def Let_def now_def step_values_def
        split: prod.splits option.splits)

lemma update_step_status_Some:
  assumes "documents (state p) doc_id = Some d"
  shows "\<exists>p'. update_step_status p doc_id stp st fp err = Inr p'"
  using assms by (simp add: update_step_status_def Let_def split: prod.splits)

lemma pipeline1_documents:
  "documents (state pipeline1) ''u/a.pdf'' =
     Some \<lparr> url = ''u/a.pdf'', original_filename = ''a.pdf'', d_metadata = empty_metadata,
            d_status = PENDING, created_at = 1, steps = pending_steps,
            files = Map.empty, errors = [] \<rparr>"
  by (simp add: pipeline1_def pipeline0_def init_def load_state_def add_document_def
        get_document_id_def get_filename_from_url_def env0_def now_def Let_def fresh_state_def
        truthy_str_def path_join_def last_segment_def ensure_pdf_def endswith_def lower_def
        lower_char_def)





subsection \<open>Registration and persistence\<close>




lemma add_document_from_json_invalid:
  assumes "falsy_str (i_source info) \<or> falsy_str (i_name info)"
  shows "add_document_from_json e p info = (None, p)"
  using assms by (auto simp add: add_document_from_json_def)

lemma add_document_from_json_new:
  assumes "\<not> falsy_str (i_source info)" "\<not> falsy_str (i_name info)"
    and "documents (state p) (get_document_id e (the (i_source info))) = None"
  shows "persisted (snd (add_document_from_json e p info))"
    and "documents (state (snd (add_document_from_json e p info)))
           (get_document_id e (the (i_source info))) \<noteq> None"
    and "fst (add_document_from_json e p info) = Some (get_document_id e (the (i_source info)))"
  using assms by (simp_all add: add_document_from_json_def Let_def now_def split: prod.splits)

lemma add_document_from_json_old:
  assumes "\<not> falsy_str (i_source info)" "\<not> falsy_str (i_name info)"
    and "documents (state p) (get_document_id e (the (i_source info))) \<noteq> None"
  shows "add_document_from_json e p info = (Some (get_document_id e (the (i_source info))), p)"
  using assms by (auto simp add: add_document_from_json_def Let_def now_def split: prod.splits)









subsection \<open>What a run may change\<close>

lemma record_frame_refl [simp]: "record_frame A i d d"
  by (simp add: record_frame_def)

lemma record_frame_trans:
  assumes "record_frame A i d d1" and "record_frame A i d1 d2"
  shows "record_frame A i d d2"
proof -
  from assms obtain e1 e2 where "errors d1 = errors d @ e1" "errors d2 = errors d1 @ e2"
    unfolding record_frame_def by blast
  then have "errors d2 = errors d @ (e1 @ e2)" by simp
  then have "\<exists>es. errors d2 = errors d @ es" ..
  with assms show ?thesis
    unfolding record_frame_def by auto
qed

lemma record_frame_mono:
  assumes "record_frame A i d d'" and "A \<subseteq> B"
  shows "record_frame B i d d'"
proof -
  have "(s, i) \<notin> A" if "(s, i) \<notin> B" for s
    using that assms(2) by blast
  with assms(1) show ?thesis
    unfolding record_frame_def by blast
qed

lemma frame_refl [simp]: "frame A p p"
  by (simp add: frame_def)

lemma frame_trans:
  assumes "frame A p q" and "frame A q r"
  shows "frame A p r"
proof -
  from assms obtain t1 t2 where
    t: "invoked q = invoked p @ t1" "set t1 \<subseteq> A" "invoked r = invoked q @ t2" "set t2 \<subseteq> A"
    unfolding frame_def by blast
  have calls: "\<exists>tr. invoked r = invoked p @ tr \<and> set tr \<subseteq> A"
    using t by (intro exI [of _ "t1 @ t2"]) simp
  have docs: "\<exists>d'. documents (state r) i = Some d' \<and> record_frame A i d d'"
    if d: "documents (state p) i = Some d" for i d
  proof -
    from assms(1) d obtain d1 where d1: "documents (state q) i = Some d1" "record_frame A i d d1"
      unfolding frame_def by blast
    from assms(2) d1(1) obtain d2 where d2: "documents (state r) i = Some d2"
      "record_frame A i d1 d2"
      unfolding frame_def by blast
    from d1(2) d2 show ?thesis
      by (blast intro: record_frame_trans)
  qed
  from assms have rest: "work_dir r = work_dir p" "state_file r = state_file p"
    "\<forall>path. path \<noteq> state_file p \<longrightarrow> fs p path \<noteq> None \<longrightarrow> fs r path = fs p path"
    unfolding frame_def by auto
  show ?thesis
    unfolding frame_def using rest calls docs by blast
qed

lemma frame_mono:
  assumes "frame A p q" and "A \<subseteq> B"
  shows "frame B p q"
proof -
  from assms obtain tr where "invoked q = invoked p @ tr" "set tr \<subseteq> B"
    unfolding frame_def by blast
  then have calls: "\<exists>tr. invoked q = invoked p @ tr \<and> set tr \<subseteq> B" by blast
  have docs: "\<exists>d'. documents (state q) i = Some d' \<and> record_frame B i d d'"
    if d: "documents (state p) i = Some d" for i d
  proof -
    from assms(1) d obtain d1 where "documents (state q) i = Some d1" "record_frame A i d d1"
      unfolding frame_def by blast
    with assms(2) show ?thesis
      by (blast intro: record_frame_mono)
  qed
  from assms have rest: "work_dir q = work_dir p" "state_file q = state_file p"
    "\<forall>path. path \<noteq> state_file p \<longrightarrow> fs p path \<noteq> None \<longrightarrow> fs q path = fs p path"
    unfolding frame_def by auto
  show ?thesis
    unfolding frame_def using rest calls docs by blast
qed

lemma frame_save_state [simp]: "frame A p (save_state p)"
  by (simp add: frame_def save_state_def now_def Let_def)

lemma frame_now [simp]: "frame A p (snd (now p))"
  by (simp add: frame_def now_def)

lemma frame_enter: "(stp, i) \<in> A \<Longrightarrow> frame A p (enter stp i p)"
  by (simp add: frame_def enter_def)

lemma frame_update_step_status:
  assumes "update_step_status p i stp st fp err = Inr p'"
  shows "frame {(stp, i)} p p'"
proof -
  from update_step_status_Inr [OF assms] obtain d where
    d: "documents (state p) i = Some d" and
    eq: "documents (state p') =
           (documents (state p))(i \<mapsto> updated_document d stp st fp err (clock p))"
    by blast
  have rf: "record_frame {(stp, i)} i d (updated_document d stp st fp err (clock p))"
    by (auto simp add: record_frame_def updated_document_def split: option.splits)
  have rest: "work_dir p' = work_dir p" "state_file p' = state_file p" "invoked p' = invoked p"
    "\<forall>path. path \<noteq> state_file p \<longrightarrow> fs p' path = fs p path"
    using assms
    by (auto simp add: update_step_status_def Let_def now_def save_state_def
          split: option.splits prod.splits)
  show ?thesis
    unfolding frame_def using rest d rf by (auto simp add: eq)
qed

lemma frame_update:
  assumes "update_step_status p i stp st fp err = Inr p'" and "(stp, i) \<in> A"
  shows "frame A p p'"
  using frame_update_step_status [OF assms(1)] assms(2) by (auto intro: frame_mono)

lemma frame_write_file:
  assumes "fs p path = None"
  shows "write_file e p path c = Inr p' \<Longrightarrow> frame A p p'"
    and "write_file e p path c = Inl (m, pe) \<Longrightarrow> frame A p pe"
  using assms
  by (auto simp add: write_file_def frame_def split: write_outcome.splits)

lemma frame_update_in_try:
  assumes "(stp, i) \<in> A"
  shows "update_in_try p i stp st fp err = Inr p' \<Longrightarrow> frame A p p'"
    and "update_in_try p i stp st fp err = Inl (m, pe) \<Longrightarrow> frame A p pe"
  using assms
  by (auto simp add: update_in_try_def split: sum.splits intro: frame_update)

lemma frame_stage_failed:
  assumes "stage_failed p i stp msg = Inr (b, p')" and "(stp, i) \<in> A"
  shows "frame A p p'"
  using assms by (auto simp add: stage_failed_def split: sum.splits intro: frame_update)

lemma frame_stage_skipped:
  assumes "stage_skipped p i stp path = Inr (b, p')" and "(stp, i) \<in> A"
  shows "frame A p p'"
  using assms by (auto simp add: stage_skipped_def split: sum.splits intro: frame_update)

lemma frame_mark_completed:
  assumes "(stp, i) \<in> A"
  shows "mark_completed p i = Inr p' \<Longrightarrow> frame A p p'"
    and "mark_completed p i = Inl (m, pe) \<Longrightarrow> frame A p pe"
proof -
  assume run: "mark_completed p i = Inr p'"
  then obtain d where d: "documents (state p) i = Some d"
    and p': "p' = save_state (p\<lparr>state := (state p)\<lparr>documents :=
                 (documents (state p))(i \<mapsto> d\<lparr>d_status := COMPLETED\<rparr>)\<rparr>\<rparr>)"
    by (auto simp add: mark_completed_def split: option.splits)
  have "record_frame A i d (d\<lparr>d_status := COMPLETED\<rparr>)"
    using assms by (auto simp add: record_frame_def)
  then show "frame A p p'"
    unfolding frame_def using d by (auto simp add: p' save_state_def now_def Let_def)
next
  assume "mark_completed p i = Inl (m, pe)"
  then have "pe = p"
    by (auto simp add: mark_completed_def split: option.splits)
  then show "frame A p pe" by simp
qed

lemma frame_download_try:
  assumes "fs p pdf_path = None" and "(download, i) \<in> A"
  shows "download_try e p i u pdf_path = Inr p' \<Longrightarrow> frame A p p'"
    and "download_try e p i u pdf_path = Inl (m, pe) \<Longrightarrow> frame A p pe"
  using assms
  by (auto simp add: download_try_def split: sum.splits
        intro: frame_trans [OF frame_write_file(1) frame_update_in_try(1)]
               frame_trans [OF frame_write_file(1) frame_update_in_try(2)]
               frame_write_file(2))

lemma fs_enter [simp]: "fs (enter stp i p) = fs p"
  by (simp add: enter_def)

lemma frame_download_pdf:
  assumes "download_pdf e p i = Inr (b, p')" and "(download, i) \<in> A"
  shows "frame A p p'"
proof -
  have "frame A (enter download i p) p'"
    using assms
    by (auto simp add: download_pdf_def Let_def
          split: option.splits sum.splits prod.splits if_splits
          intro: frame_stage_skipped frame_stage_failed frame_download_try
                 frame_trans [OF frame_download_try(2) frame_stage_failed])
  with frame_enter [OF assms(2)] show ?thesis
    by (rule frame_trans)
qed

lemma frame_agentic_try:
  assumes "fs p path = None" and "(agentic_process, i) \<in> A"
  shows "agentic_try e p i d pdf_path path = Inr p' \<Longrightarrow> frame A p p'"
    and "agentic_try e p i d pdf_path path = Inl (m, pe) \<Longrightarrow> frame A p pe"
proof -
  have n: "fs (snd (now p)) path = None" "frame A p (snd (now p))"
    using assms(1) by (simp add: now_def, simp)
  {
    assume "agentic_try e p i d pdf_path path = Inr p'"
    then have "frame A (snd (now p)) p'"
      using assms(2) n(1)
      by (auto simp add: agentic_try_def Let_def split: sum.splits prod.splits
            intro: frame_trans [OF frame_write_file(1) frame_update_in_try(1)])
    with n(2) show "frame A p p'" by (rule frame_trans)
  }
  {
    assume "agentic_try e p i d pdf_path path = Inl (m, pe)"
    then have "pe = p \<or> frame A (snd (now p)) pe"
      using assms(2) n(1)
      by (auto simp add: agentic_try_def Let_def split: sum.splits prod.splits
            intro: frame_trans [OF frame_write_file(1) frame_update_in_try(2)]
                   frame_write_file(2))
    then show "frame A p pe"
    proof
      assume "pe = p"
      then show ?thesis by simp
    next
      assume "frame A (snd (now p)) pe"
      with n(2) show ?thesis by (rule frame_trans)
    qed
  }
qed

lemma frame_process_with_agentic_doc:
  assumes "process_with_agentic_doc e p i = Inr (b, p')" and "(agentic_process, i) \<in> A"
  shows "frame A p p'"
proof -
  have "frame A (enter agentic_process i p) p'"
    using assms
    by (auto simp add: process_with_agentic_doc_def Let_def
          split: option.splits sum.splits prod.splits if_splits
          intro: frame_stage_skipped frame_stage_failed frame_agentic_try
                 frame_trans [OF frame_agentic_try(2) frame_stage_failed])
  with frame_enter [OF assms(2)] show ?thesis
    by (rule frame_trans)
qed

lemma mistral_transform_now: "snd (mistral_transform e p i v d) = snd (now p)"
  by (simp add: mistral_transform_def Let_def split: prod.splits)

lemma mistral_transform_Some: "fst (mistral_transform e p i v d) \<noteq> None"
  by (simp add: mistral_transform_def Let_def split: prod.splits)

lemma frame_transform_try:
  assumes "fs p path = None" and "(transform, i) \<in> A"
  shows "transform_try e p i d apath path = Inr (b, p') \<Longrightarrow> frame A p p'"
    and "transform_try e p i d apath path = Inl (m, pe) \<Longrightarrow> frame A p pe"
proof -
  have n: "fs (snd (now p)) path = None" "frame A p (snd (now p))"
    using assms(1) by (simp add: now_def, simp)
  {
    assume run: "transform_try e p i d apath path = Inr (b, p')"
    then obtain v where v: "load_agentic_json p apath = Inr v"
      by (auto simp add: transform_try_def split: sum.splits)
    obtain pp p1 where mt: "mistral_transform e p i v d = (Some pp, p1)" and p1: "p1 = snd (now p)"
      using mistral_transform_Some [of e p i v d] mistral_transform_now [of e p i v d]
      by (cases "mistral_transform e p i v d") auto
    from run v mt obtain p2 p3 where
      w: "write_file e p1 path (ProcessedFile pp) = Inr p2" and
      u: "update_in_try p2 i transform COMPLETED (Some path) None = Inr p3" and
      c: "mark_completed p3 i = Inr p'"
      by (auto simp add: transform_try_def split: sum.splits)
    have "frame A p1 p2" using w n(1) p1 by (auto intro: frame_write_file(1))
    moreover have "frame A p2 p3" using u assms(2) by (rule frame_update_in_try(1) [rotated])
    moreover have "frame A p3 p'" using c assms(2) by (rule frame_mark_completed(1) [rotated])
    ultimately show "frame A p p'"
      using n(2) p1 by (blast intro: frame_trans)
  }
  {
    assume run: "transform_try e p i d apath path = Inl (m, pe)"
    show "frame A p pe"
    proof (cases "load_agentic_json p apath")
      case (Inl a)
      with run show ?thesis by (simp add: transform_try_def)
    next
      case (Inr v)
      obtain pp p1 where mt: "mistral_transform e p i v d = (Some pp, p1)"
        and p1: "p1 = snd (now p)"
        using mistral_transform_Some [of e p i v d] mistral_transform_now [of e p i v d]
        by (cases "mistral_transform e p i v d") auto
      show ?thesis
      proof (cases "write_file e p1 path (ProcessedFile pp)")
        case (Inl a)
        with run Inr mt have "write_file e p1 path (ProcessedFile pp) = Inl (m, pe)"
          by (simp add: transform_try_def)
        then have "frame A p1 pe" using n(1) p1 by (auto intro: frame_write_file(2))
        with n(2) p1 show ?thesis by (blast intro: frame_trans)
      next
        case w: (Inr p2)
        have f2: "frame A p1 p2" using w n(1) p1 by (auto intro: frame_write_file(1))
        show ?thesis
        proof (cases "update_in_try p2 i transform COMPLETED (Some path) None")
          case (Inl a)
          with run Inr mt w
          have "update_in_try p2 i transform COMPLETED (Some path) None = Inl (m, pe)"
            by (simp add: transform_try_def)
          then have "frame A p2 pe" using assms(2) by (rule frame_update_in_try(2) [rotated])
          with n(2) p1 f2 show ?thesis by (blast intro: frame_trans)
        next
          case u: (Inr p3)
          have f3: "frame A p2 p3" using u assms(2) by (rule frame_update_in_try(1) [rotated])
          from run Inr mt w u have "mark_completed p3 i = Inl (m, pe)"
            by (auto simp add: transform_try_def split: sum.splits)
          then have "frame A p3 pe" using assms(2) by (rule frame_mark_completed(2) [rotated])
          with n(2) p1 f2 f3 show ?thesis by (blast intro: frame_trans)
        qed
      qed
    qed
  }
qed

lemma frame_transform_to_pdf_processed:
  assumes "transform_to_pdf_processed e p i = Inr (b, p')" and "(transform, i) \<in> A"
  shows "frame A p p'"
proof -
  have "frame A (enter transform i p) p'"
    using assms
    by (auto simp add: transform_to_pdf_processed_def Let_def
          split: option.splits sum.splits prod.splits if_splits
          intro: frame_stage_skipped frame_stage_failed frame_transform_try
                 frame_trans [OF frame_transform_try(2) frame_stage_failed])
  with frame_enter [OF assms(2)] show ?thesis
    by (rule frame_trans)
qed

lemma step_done_frame:
  assumes "frame B p q" and "(s, i) \<notin> B" and "step_done p i s"
  shows "step_done q i s"
proof -
  from assms(3) obtain d where d: "documents (state p) i = Some d" "status (steps d s) = COMPLETED"
    by (auto simp add: step_done_def split: option.splits)
  from assms(1) d(1) obtain d' where "documents (state q) i = Some d'" "record_frame B i d d'"
    unfolding frame_def by blast
  with assms(2) d(2) show ?thesis
    by (auto simp add: step_done_def record_frame_def)
qed

lemma frame_process_document:
  assumes "process_document e p i = Inr (r, p')"
      and "(download, i) \<in> A" "(agentic_process, i) \<in> A" "(transform, i) \<in> A"
  shows "frame A p p'"
proof -
  from assms(1) obtain ok1 p1 where r1: "download_pdf e p i = Inr (ok1, p1)"
    by (auto simp add: process_document_def split: sum.splits)
  have f1: "frame A p p1" using r1 assms(2) by (rule frame_download_pdf)
  show ?thesis
  proof (cases ok1)
    case False
    with assms(1) r1 f1 show ?thesis by (simp add: process_document_def)
  next
    case ok1: True
    from assms(1) r1 ok1 obtain ok2 p2 where r2: "process_with_agentic_doc e p1 i = Inr (ok2, p2)"
      by (auto simp add: process_document_def split: sum.splits)
    have f2: "frame A p p2"
      using f1 frame_process_with_agentic_doc [OF r2 assms(3)] by (rule frame_trans)
    show ?thesis
    proof (cases ok2)
      case False
      with assms(1) r1 ok1 r2 f2 show ?thesis by (simp add: process_document_def)
    next
      case ok2: True
      from assms(1) r1 ok1 r2 ok2 obtain ok3 p3 where
        r3: "transform_to_pdf_processed e p2 i = Inr (ok3, p3)"
        by (auto simp add: process_document_def split: sum.splits)
      have f3: "frame A p p3"
        using f2 frame_transform_to_pdf_processed [OF r3 assms(4)] by (rule frame_trans)
      from assms(1) r1 ok1 r2 ok2 r3 have "p' = p3"
        by (auto simp add: process_document_def split: if_splits)
      with f3 show ?thesis by simp
    qed
  qed
qed

lemma frame_process_loop:
  assumes "process_loop e p rs ids = Inr (rs', p')"
      and "\<forall>i \<in> set ids. \<forall>s. (s, i) \<in> A"
  shows "frame A p p'"
  using assms
proof (induction ids arbitrary: p rs)
  case Nil
  then show ?case by simp
next
  case (Cons i ids)
  from Cons.prems(1) obtain r p1 where
    r: "process_document e p i = Inr (r, p1)" and
    rest: "process_loop e p1 (rs(i \<mapsto> r)) ids = Inr (rs', p')"
    by (auto split: sum.splits)
  have "frame A p p1"
    using r Cons.prems(2) by (intro frame_process_document) auto
  moreover have "frame A p1 p'"
    using rest Cons.prems(2) by (intro Cons.IH) auto
  ultimately show ?case by (rule frame_trans)
qed

lemma frame_add_document: "frame A p (snd (add_document e p u a f))"
  by (auto simp add: add_document_def Let_def now_def save_state_def frame_def
        split: prod.splits)

lemma frame_add_document_from_json: "frame A p (snd (add_document_from_json e p info))"
  by (auto simp add: add_document_from_json_def Let_def now_def save_state_def frame_def
        split: prod.splits)

lemma frame_add_documents: "frame A p (snd (add_documents e p us))"
proof (induction us arbitrary: p)
  case Nil
  then show ?case by simp
next
  case (Cons u us)
  have "frame A p (snd (add_document e p u None None))"
    by (rule frame_add_document)
  moreover have "frame A (snd (add_document e p u None None))
                   (snd (add_documents e (snd (add_document e p u None None)) us))"
    by (rule Cons.IH)
  ultimately have "frame A p (snd (add_documents e (snd (add_document e p u None None)) us))"
    by (rule frame_trans)
  then show ?case
    by (auto simp add: Let_def split: prod.splits)
qed

lemma frame_add_documents_from_json: "frame A p (snd (add_documents_from_json e p infos))"
proof (induction infos arbitrary: p)
  case Nil
  then show ?case by simp
next
  case (Cons info infos)
  have "frame A p (snd (add_document_from_json e p info))"
    by (rule frame_add_document_from_json)
  moreover have "frame A (snd (add_document_from_json e p info))
                   (snd (add_documents_from_json e (snd (add_document_from_json e p info)) infos))"
    by (rule Cons.IH)
  ultimately have
    "frame A p (snd (add_documents_from_json e (snd (add_document_from_json e p info)) infos))"
    by (rule frame_trans)
  then show ?case
    by (auto simp add: Let_def split: prod.splits option.splits)
qed

lemma frame_process_all_documents:
  assumes "process_all_documents e p us = Inr (res, p')"
  shows "frame UNIV p p'"
proof -
  obtain ids p1 where a: "add_documents e p us = (ids, p1)"
    by (cases "add_documents e p us")
  have f1: "frame UNIV p p1"
    using frame_add_documents [of UNIV p e us] a by simp
  from assms a obtain rs p3 where
    l: "process_loop e (snd (now p1)) Map.empty ids = Inr (rs, p3)" and p': "p' = snd (now p3)"
    by (auto simp add: process_all_documents_def Let_def now_def split: sum.splits prod.splits)
  have "frame UNIV (snd (now p1)) p3"
    using l by (rule frame_process_loop) simp
  with f1 have "frame UNIV p p3"
    by (blast intro: frame_trans frame_now)
  then show ?thesis
    unfolding p' by (blast intro: frame_trans frame_now)
qed

lemma frame_process_document_from_json:
  assumes run: "process_document_from_json e p i = Inr (r, p')"
      and A: "\<forall>s. \<not> step_done p i s \<longrightarrow> (s, i) \<in> A"
  shows "frame A p p'"
proof -
  from run obtain d where d: "documents (state p) i = Some d"
    by (auto simp add: process_document_from_json_def split: option.splits)
  show ?thesis
  proof (cases "d_status d = COMPLETED")
    case True
    with run d show ?thesis by (simp add: process_document_from_json_def)
  next
    case nc: False
    define r1 where "r1 = (if \<not> step_done p i download then download_pdf e p i else Inr (True, p))"
    from run d nc obtain ok1 p1 where r1: "r1 = Inr (ok1, p1)"
      unfolding r1_def by (auto simp add: process_document_from_json_def split: sum.splits)
    have g1: "frame {(download, i)} p p1"
      using r1 unfolding r1_def by (auto split: if_splits intro: frame_download_pdf)
    have f1: "frame A p p1"
      using r1 A unfolding r1_def by (auto split: if_splits intro: frame_download_pdf)
    show ?thesis
    proof (cases ok1)
      case False
      with run d nc r1 f1 show ?thesis
        unfolding r1_def by (auto simp add: process_document_from_json_def)
    next
      case ok1: True
      define r2 where "r2 = (if \<not> step_done p1 i agentic_process
                             then process_with_agentic_doc e p1 i else Inr (True, p1))"
      from run d nc r1 ok1 obtain ok2 p2 where r2: "r2 = Inr (ok2, p2)"
        unfolding r1_def r2_def
        by (auto simp add: process_document_from_json_def split: sum.splits)
      have a2: "(agentic_process, i) \<in> A" if "\<not> step_done p1 i agentic_process"
        using that A step_done_frame [OF g1, of agentic_process i] by auto
      have g2: "frame {(download, i), (agentic_process, i)} p1 p2"
        using r2 unfolding r2_def
        by (auto split: if_splits intro: frame_process_with_agentic_doc)
      have f2: "frame A p1 p2"
        using r2 a2 unfolding r2_def
        by (auto split: if_splits intro: frame_process_with_agentic_doc)
      have g12: "frame {(download, i), (agentic_process, i)} p p2"
        using frame_mono [OF g1] g2 by (blast intro: frame_trans)
      show ?thesis
      proof (cases ok2)
        case False
        with run d nc r1 ok1 r2 f1 f2 show ?thesis
          unfolding r1_def r2_def
          by (auto simp add: process_document_from_json_def intro: frame_trans)
      next
        case ok2: True
        define r3 where "r3 = (if \<not> step_done p2 i transform
                               then transform_to_pdf_processed e p2 i else Inr (True, p2))"
        from run d nc r1 ok1 r2 ok2 obtain ok3 p3 where r3: "r3 = Inr (ok3, p3)"
          unfolding r1_def r2_def r3_def
          by (auto simp add: process_document_from_json_def split: sum.splits)
        have a3: "(transform, i) \<in> A" if "\<not> step_done p2 i transform"
          using that A step_done_frame [OF g12, of transform i] by auto
        have f3: "frame A p2 p3"
          using r3 a3 unfolding r3_def
          by (auto split: if_splits intro: frame_transform_to_pdf_processed)
        from run d nc r1 ok1 r2 ok2 r3 have "p' = p3"
          unfolding r1_def r2_def r3_def
          by (auto simp add: process_document_from_json_def split: if_splits)
        with f1 f2 f3 show ?thesis by (blast intro: frame_trans)
      qed
    qed
  qed
qed

lemma frame_process_loop_from_json:
  assumes "process_loop_from_json e p rs ids = Inr (rs', p')"
      and "\<forall>i s. \<not> step_done p i s \<longrightarrow> (s, i) \<in> A"
  shows "frame A p p'"
  using assms
proof (induction ids arbitrary: p rs)
  case Nil
  then show ?case by simp
next
  case (Cons i ids)
  from Cons.prems(1) obtain r p1 where
    r: "process_document_from_json e p i = Inr (r, p1)" and
    rest: "process_loop_from_json e p1 (rs(i \<mapsto> r)) ids = Inr (rs', p')"
    by (auto split: sum.splits)
  have f1: "frame A p p1"
    using r Cons.prems(2) by (intro frame_process_document_from_json) auto
  have "\<forall>j s. \<not> step_done p1 j s \<longrightarrow> (s, j) \<in> A"
    using Cons.prems(2) step_done_frame [OF f1] by blast
  with rest have "frame A p1 p'"
    by (rule Cons.IH)
  with f1 show ?case by (rule frame_trans)
qed

lemma frame_process_all_documents_from_json:
  assumes "process_all_documents_from_json e p infos = Inr (res, p')"
      and A: "\<forall>i s. \<not> step_done p i s \<longrightarrow> (s, i) \<in> A"
  shows "frame A p p'"
proof -
  obtain ids p1 where a: "add_documents_from_json e p infos = (ids, p1)"
    by (cases "add_documents_from_json e p infos")
  have f1: "frame A p p1" and e1: "frame {} p p1"
    using frame_add_documents_from_json [of _ p e infos] a by simp_all
  from assms(1) a obtain rs p3 where
    l: "process_loop_from_json e (snd (now p1)) Map.empty ids = Inr (rs, p3)"
    and p': "p' = snd (now p3)"
    by (auto simp add: process_all_documents_from_json_def Let_def now_def
          split: sum.splits prod.splits)
  have e2: "frame {} p (snd (now p1))"
    using e1 by (blast intro: frame_trans frame_now)
  have "\<forall>i s. \<not> step_done (snd (now p1)) i s \<longrightarrow> (s, i) \<in> A"
    using A step_done_frame [OF e2] by blast
  with l have "frame A (snd (now p1)) p3"
    by (rule frame_process_loop_from_json)
  with f1 have "frame A p p3"
    by (blast intro: frame_trans frame_now)
  then show ?thesis
    unfolding p' by (blast intro: frame_trans frame_now)
qed

subsection \<open>The stage executors return\<close>

lemma path_join_nonempty [simp]: "path_join a b \<noteq> []"
  by (cases b) (simp_all add: path_join_def)

lemma paths_recorded_save_state [simp]: "paths_recorded (save_state p) = paths_recorded p"
  by (simp add: paths_recorded_def)

lemma paths_recorded_now [simp]: "paths_recorded (snd (now p)) = paths_recorded p"
  by (simp add: paths_recorded_def now_def)

lemma paths_recorded_enter [simp]: "paths_recorded (enter stp i p) = paths_recorded p"
  by (simp add: paths_recorded_def enter_def)

lemma documents_enter [simp]: "documents (state (enter stp i p)) = documents (state p)"
  by (simp add: enter_def)

lemma documents_now [simp]: "documents (state (snd (now p))) = documents (state p)"
  by (simp add: now_def)

lemma paths_recorded_update:
  assumes "paths_recorded p" and "update_step_status p i stp st fp err = Inr p'"
      and "st = COMPLETED \<longrightarrow> truthy_str fp \<noteq> None"
  shows "paths_recorded p'"
proof -
  from update_step_status_Inr [OF assms(2)] obtain d where
    d: "documents (state p) i = Some d" and
    eq: "documents (state p') =
           (documents (state p))(i \<mapsto> updated_document d stp st fp err (clock p))"
    by blast
  show ?thesis
    unfolding paths_recorded_def
  proof (intro allI impI)
    fix j dj s
    assume dj: "documents (state p') j = Some dj" and c: "status (steps dj s) = COMPLETED"
    show "files dj s \<noteq> None"
    proof (cases "j = i")
      case False
      with dj eq have "documents (state p) j = Some dj" by simp
      with assms(1) c show ?thesis unfolding paths_recorded_def by blast
    next
      case True
      with dj eq have dj': "dj = updated_document d stp st fp err (clock p)" by simp
      show ?thesis
      proof (cases "s = stp")
        case True
        with c dj' assms(3) show ?thesis
          by (auto simp add: updated_document_def split: option.splits)
      next
        case False
        with c dj' have "status (steps d s) = COMPLETED"
          by (simp add: updated_document_def)
        with assms(1) d have "files d s \<noteq> None" unfolding paths_recorded_def by blast
        with False dj' show ?thesis
          by (auto simp add: updated_document_def split: option.splits)
      qed
    qed
  qed
qed

lemma state_write_file:
  shows "write_file e p path c = Inr p' \<Longrightarrow> state p' = state p"
    and "write_file e p path c = Inl (m, pe) \<Longrightarrow> state pe = state p"
  by (auto simp add: write_file_def split: write_outcome.splits)

lemma paths_recorded_state: "state p' = state p \<Longrightarrow> paths_recorded p \<Longrightarrow> paths_recorded p'"
  by (simp add: paths_recorded_def)

lemma update_in_try_Inr:
  "update_in_try p i stp st fp err = Inr p' \<Longrightarrow> update_step_status p i stp st fp err = Inr p'"
  by (simp add: update_in_try_def split: sum.splits)

lemma update_in_try_Inl: "update_in_try p i stp st fp err = Inl (m, pe) \<Longrightarrow> pe = p"
  by (simp add: update_in_try_def split: sum.splits)

lemma truthy_str_Some: "path \<noteq> [] \<Longrightarrow> truthy_str (Some path) = Some path"
  by (simp add: truthy_str_def)

lemma stage_failed_total:
  assumes "paths_recorded p" and "documents (state p) i \<noteq> None"
  shows "\<exists>p'. stage_failed p i stp msg = Inr (False, p') \<and> paths_recorded p'"
proof -
  from assms(2) obtain p' where u: "update_step_status p i stp FAILED None (Some msg) = Inr p'"
    using update_step_status_Some by blast
  with assms(1) have "paths_recorded p'"
    by (rule paths_recorded_update) simp
  with u show ?thesis by (simp add: stage_failed_def)
qed

lemma stage_skipped_total:
  assumes "paths_recorded p" and "documents (state p) i \<noteq> None" and "path \<noteq> []"
  shows "\<exists>p'. stage_skipped p i stp path = Inr (True, p') \<and> paths_recorded p'"
proof -
  from assms(2) obtain p' where
    u: "update_step_status p i stp COMPLETED (Some path) None = Inr p'"
    using update_step_status_Some by blast
  with assms(1) have "paths_recorded p'"
    by (rule paths_recorded_update) (simp add: truthy_str_def assms(3))
  with u show ?thesis by (simp add: stage_skipped_def)
qed

lemma frame_documents:
  assumes "frame A p q" and "documents (state p) i \<noteq> None"
  shows "documents (state q) i \<noteq> None"
  using assms unfolding frame_def by fastforce

lemma get_output_dirs_Some:
  assumes "documents (state p) i = Some d"
  shows "\<exists>a b c. get_output_dirs p i = Inr (a, b, c)"
  using assms by (simp add: get_output_dirs_def get_document_status_def Let_def)

lemma download_try_keeps:
  assumes "paths_recorded p" and "path \<noteq> []"
  shows "download_try e p i u path = Inr p' \<Longrightarrow> paths_recorded p'"
    and "download_try e p i u path = Inl (m, pe) \<Longrightarrow> paths_recorded pe"
proof -
  have t: "COMPLETED = COMPLETED \<longrightarrow> truthy_str (Some path) \<noteq> None"
    using assms(2) by (simp add: truthy_str_Some)
  {
    assume r: "download_try e p i u path = Inr p'"
    then obtain body where g: "requests_get e u = Inr body"
      by (cases "requests_get e u") (simp_all add: download_try_def)
    with r obtain p1 where w: "write_file e p path (PdfFile body) = Inr p1"
      by (cases "write_file e p path (PdfFile body)") (simp_all add: download_try_def)
    with r g have u: "update_in_try p1 i download COMPLETED (Some path) None = Inr p'"
      by (simp add: download_try_def)
    have "state p1 = state p" using w by (rule state_write_file(1))
    from this assms(1) have "paths_recorded p1" by (rule paths_recorded_state)
    then show "paths_recorded p'"
      using update_in_try_Inr [OF u] t by (rule paths_recorded_update)
  }
  {
    assume r: "download_try e p i u path = Inl (m, pe)"
    show "paths_recorded pe"
    proof (cases "requests_get e u")
      case (Inl a)
      with r have "pe = p" by (simp add: download_try_def)
      with assms(1) show ?thesis by simp
    next
      case (Inr body)
      show ?thesis
      proof (cases "write_file e p path (PdfFile body)")
        case (Inl a)
        with r Inr have "write_file e p path (PdfFile body) = Inl (m, pe)"
          by (simp add: download_try_def)
        then have "state pe = state p" by (rule state_write_file(2))
        from this assms(1) show ?thesis by (rule paths_recorded_state)
      next
        case w: (Inr p1)
        have "state p1 = state p" using w by (rule state_write_file(1))
        from this assms(1) have p1: "paths_recorded p1" by (rule paths_recorded_state)
        from r Inr w have "update_in_try p1 i download COMPLETED (Some path) None = Inl (m, pe)"
          by (simp add: download_try_def)
        then have "pe = p1" by (rule update_in_try_Inl)
        with p1 show ?thesis by simp
      qed
    qed
  }
qed

lemma download_pdf_total:
  assumes "paths_recorded p"
  shows "\<exists>b p'. download_pdf e p i = Inr (b, p') \<and> paths_recorded p'"
proof (cases "documents (state p) i")
  case None
  then have "download_pdf e p i = Inr (False, enter download i p)"
    by (simp add: download_pdf_def get_document_status_def Let_def)
  with assms show ?thesis by auto
next
  case (Some d)
  let ?p = "enter download i p"
  have pr: "paths_recorded ?p" and ex: "documents (state ?p) i = Some d"
    using assms Some by simp_all
  from get_output_dirs_Some [OF ex] obtain a b c where
    dirs: "get_output_dirs ?p i = Inr (a, b, c)"
    by blast
  let ?path = "path_join a (original_filename d)"
  have unfold: "download_pdf e p i =
      (if fs ?p ?path \<noteq> None then stage_skipped ?p i download ?path
       else (case download_try e ?p i (url d) ?path of
               Inr p' \<Rightarrow> Inr (True, p')
             | Inl (m, pe) \<Rightarrow> stage_failed pe i download (''Error descargando PDF: '' @ m)))"
    using ex dirs by (simp add: download_pdf_def get_document_status_def Let_def)
  show ?thesis
  proof (cases "fs ?p ?path = None")
    case False
    have "documents (state ?p) i \<noteq> None" using ex by simp
    from stage_skipped_total [OF pr this path_join_nonempty] obtain p' where
      sk: "stage_skipped ?p i download ?path = Inr (True, p')" and pr': "paths_recorded p'"
      by blast
    have "download_pdf e p i = Inr (True, p')"
      using False sk by (simp add: unfold)
    with pr' show ?thesis by blast
  next
    case absent: True
    show ?thesis
    proof (cases "download_try e ?p i (url d) ?path")
      case (Inr p')
      from pr path_join_nonempty Inr have pr': "paths_recorded p'"
        by (rule download_try_keeps(1))
      have "download_pdf e p i = Inr (True, p')"
        using absent Inr by (simp only: unfold) simp
      with pr' show ?thesis by blast
    next
      case (Inl x)
      obtain m pe where x: "x = (m, pe)" by (cases x)
      have run: "download_try e ?p i (url d) ?path = Inl (m, pe)"
        using Inl x by simp
      from pr path_join_nonempty run have pe: "paths_recorded pe"
        by (rule download_try_keeps(2))
      have "(download, i) \<in> {(download, i)}" by simp
      from absent this run have "frame {(download, i)} ?p pe"
        by (rule frame_download_try(2))
      from this have "documents (state pe) i \<noteq> None"
        by (rule frame_documents) (simp add: Some)
      from stage_failed_total [OF pe this] obtain p' where
        sf: "stage_failed pe i download (''Error descargando PDF: '' @ m) = Inr (False, p')"
        and pr': "paths_recorded p'"
        by blast
      have "download_pdf e p i = Inr (False, p')"
        using absent run sf by (simp only: unfold) simp
      with pr' show ?thesis by blast
    qed
  qed
qed

lemma agentic_try_keeps:
  assumes "paths_recorded p" and "path \<noteq> []"
  shows "agentic_try e p i d pdf_path path = Inr p' \<Longrightarrow> paths_recorded p'"
    and "agentic_try e p i d pdf_path path = Inl (m, pe) \<Longrightarrow> paths_recorded pe"
proof -
  have t: "COMPLETED = COMPLETED \<longrightarrow> truthy_str (Some path) \<noteq> None"
    using assms(2) by (simp add: truthy_str_Some)
  let ?p1 = "snd (now p)"
  have n: "paths_recorded ?p1" using assms(1) by simp
  {
    assume r: "agentic_try e p i d pdf_path path = Inr p'"
    then obtain result where g: "parse e pdf_path = Inr result"
      by (cases "parse e pdf_path") (simp_all add: agentic_try_def)
    let ?out = "AgenticFile (build_agentic_output i d pdf_path (fst (now p)) result)"
    from r g obtain p2 where w: "write_file e ?p1 path ?out = Inr p2"
      by (cases "write_file e ?p1 path ?out")
         (simp_all add: agentic_try_def Let_def split: prod.splits)
    with r g have u: "update_in_try p2 i agentic_process COMPLETED (Some path) None = Inr p'"
      by (simp add: agentic_try_def Let_def split: prod.splits)
    have "state p2 = state ?p1" using w by (rule state_write_file(1))
    from this n have "paths_recorded p2" by (rule paths_recorded_state)
    then show "paths_recorded p'"
      using update_in_try_Inr [OF u] t by (rule paths_recorded_update)
  }
  {
    assume r: "agentic_try e p i d pdf_path path = Inl (m, pe)"
    show "paths_recorded pe"
    proof (cases "parse e pdf_path")
      case (Inl a)
      with r have "pe = p" by (simp add: agentic_try_def)
      with assms(1) show ?thesis by simp
    next
      case (Inr result)
      let ?out = "AgenticFile (build_agentic_output i d pdf_path (fst (now p)) result)"
      show ?thesis
      proof (cases "write_file e ?p1 path ?out")
        case (Inl a)
        with r Inr have "write_file e ?p1 path ?out = Inl (m, pe)"
          by (simp add: agentic_try_def Let_def split: prod.splits)
        then have "state pe = state ?p1" by (rule state_write_file(2))
        from this n show ?thesis by (rule paths_recorded_state)
      next
        case w: (Inr p2)
        have "state p2 = state ?p1" using w by (rule state_write_file(1))
        from this n have p2: "paths_recorded p2" by (rule paths_recorded_state)
        from r Inr w
        have "update_in_try p2 i agentic_process COMPLETED (Some path) None = Inl (m, pe)"
          by (simp add: agentic_try_def Let_def split: prod.splits)
        then have "pe = p2" by (rule update_in_try_Inl)
        with p2 show ?thesis by simp
      qed
    qed
  }
qed

lemma process_with_agentic_doc_total:
  assumes "paths_recorded p"
  shows "\<exists>b p'. process_with_agentic_doc e p i = Inr (b, p') \<and> paths_recorded p'"
proof (cases "documents (state p) i")
  case None
  then have "process_with_agentic_doc e p i = Inr (False, enter agentic_process i p)"
    by (simp add: process_with_agentic_doc_def get_document_status_def Let_def)
  with assms show ?thesis by auto
next
  case (Some d)
  let ?p = "enter agentic_process i p"
  have pr: "paths_recorded ?p" and ex: "documents (state ?p) i = Some d"
    using assms Some by simp_all
  show ?thesis
  proof (cases "status (steps d download) = COMPLETED")
    case False
    with Some have "process_with_agentic_doc e p i = Inr (False, ?p)"
      by (simp add: process_with_agentic_doc_def get_document_status_def Let_def)
    with pr show ?thesis by blast
  next
    case fin: True
    with assms Some obtain pdf_path where pdf: "files d download = Some pdf_path"
      unfolding paths_recorded_def by blast
    from get_output_dirs_Some [OF ex] obtain a b c where
      dirs: "get_output_dirs ?p i = Inr (a, b, c)"
      by blast
    let ?path = "path_join b (rsplit_dot (original_filename d) @ ''.json'')"
    have unfold: "process_with_agentic_doc e p i =
      (if fs ?p ?path \<noteq> None then stage_skipped ?p i agentic_process ?path
       else (case agentic_try e ?p i d pdf_path ?path of
               Inr p' \<Rightarrow> Inr (True, p')
             | Inl (m, pe) \<Rightarrow>
                 stage_failed pe i agentic_process (''Error procesando con Agentic-doc: '' @ m)))"
      using Some fin pdf dirs
      by (simp add: process_with_agentic_doc_def get_document_status_def Let_def)
    show ?thesis
    proof (cases "fs ?p ?path = None")
      case False
      have "documents (state ?p) i \<noteq> None" using ex by simp
      from stage_skipped_total [OF pr this path_join_nonempty] obtain p' where
        sk: "stage_skipped ?p i agentic_process ?path = Inr (True, p')"
        and pr': "paths_recorded p'"
        by blast
      have "process_with_agentic_doc e p i = Inr (True, p')"
        using False sk by (simp add: unfold)
      with pr' show ?thesis by blast
    next
      case absent: True
      show ?thesis
      proof (cases "agentic_try e ?p i d pdf_path ?path")
        case (Inr p')
        from pr path_join_nonempty Inr have pr': "paths_recorded p'"
          by (rule agentic_try_keeps(1))
        have "process_with_agentic_doc e p i = Inr (True, p')"
          using absent Inr by (simp only: unfold) simp
        with pr' show ?thesis by blast
      next
        case (Inl x)
        obtain m pe where x: "x = (m, pe)" by (cases x)
        have run: "agentic_try e ?p i d pdf_path ?path = Inl (m, pe)"
          using Inl x by simp
        from pr path_join_nonempty run have pe: "paths_recorded pe"
          by (rule agentic_try_keeps(2))
        have "(agentic_process, i) \<in> {(agentic_process, i)}" by simp
        from absent this run have "frame {(agentic_process, i)} ?p pe"
          by (rule frame_agentic_try(2))
        from this have "documents (state pe) i \<noteq> None"
          by (rule frame_documents) (simp add: Some)
        from stage_failed_total [OF pe this] obtain p' where
          sf: "stage_failed pe i agentic_process (''Error procesando con Agentic-doc: '' @ m)
                 = Inr (False, p')"
          and pr': "paths_recorded p'"
          by blast
        have "process_with_agentic_doc e p i = Inr (False, p')"
          using absent run sf by (simp only: unfold) simp
        with pr' show ?thesis by blast
      qed
    qed
  qed
qed

lemma mark_completed_keeps:
  assumes "paths_recorded p"
  shows "mark_completed p i = Inr p' \<Longrightarrow> paths_recorded p'"
    and "mark_completed p i = Inl (m, pe) \<Longrightarrow> pe = p"
  using assms
  by (auto simp add: mark_completed_def paths_recorded_def split: option.splits if_splits)

lemma transform_try_keeps:
  assumes "paths_recorded p" and "path \<noteq> []"
  shows "transform_try e p i d apath path = Inr (b, p') \<Longrightarrow> paths_recorded p'"
    and "transform_try e p i d apath path = Inl (m, pe) \<Longrightarrow> paths_recorded pe"
proof -
  have t: "COMPLETED = COMPLETED \<longrightarrow> truthy_str (Some path) \<noteq> None"
    using assms(2) by (simp add: truthy_str_Some)
  let ?p1 = "snd (now p)"
  have n: "paths_recorded ?p1" using assms(1) by simp
  have step: "paths_recorded q"
    if r: "transform_try e p i d apath path = res" and
       q: "res = Inr (b, q) \<or> res = Inl (m, q)" for res q
  proof (cases "load_agentic_json p apath")
    case (Inl a)
    with r q have "q = p" by (auto simp add: transform_try_def)
    with assms(1) show ?thesis by simp
  next
    case (Inr v)
    obtain pp p1 where mt: "mistral_transform e p i v d = (Some pp, p1)" and p1: "p1 = ?p1"
      using mistral_transform_Some [of e p i v d] mistral_transform_now [of e p i v d]
      by (cases "mistral_transform e p i v d") auto
    show ?thesis
    proof (cases "write_file e p1 path (ProcessedFile pp)")
      case (Inl a)
      with r q Inr mt have "write_file e p1 path (ProcessedFile pp) = Inl (m, q)"
        by (auto simp add: transform_try_def)
      then have "state q = state p1" by (rule state_write_file(2))
      from this n [folded p1] show ?thesis by (rule paths_recorded_state)
    next
      case w: (Inr p2)
      have "state p2 = state p1" using w by (rule state_write_file(1))
      from this n [folded p1] have p2: "paths_recorded p2" by (rule paths_recorded_state)
      show ?thesis
      proof (cases "update_in_try p2 i transform COMPLETED (Some path) None")
        case (Inl a)
        with r q Inr mt w
        have "update_in_try p2 i transform COMPLETED (Some path) None = Inl (m, q)"
          by (auto simp add: transform_try_def)
        then have "q = p2" by (rule update_in_try_Inl)
        with p2 show ?thesis by simp
      next
        case u: (Inr p3)
        from p2 update_in_try_Inr [OF u] t have p3: "paths_recorded p3"
          by (rule paths_recorded_update)
        show ?thesis
        proof (cases "mark_completed p3 i")
          case (Inl a)
          with r q Inr mt w u have "mark_completed p3 i = Inl (m, q)"
            by (auto simp add: transform_try_def)
          from mark_completed_keeps(2) [OF p3 this] p3 show ?thesis by simp
        next
          case c: (Inr p4)
          with r q Inr mt w u have "q = p4"
            by (auto simp add: transform_try_def)
          with mark_completed_keeps(1) [OF p3 c] show ?thesis by simp
        qed
      qed
    qed
  qed
  show "transform_try e p i d apath path = Inr (b, p') \<Longrightarrow> paths_recorded p'"
    using step by blast
  show "transform_try e p i d apath path = Inl (m, pe) \<Longrightarrow> paths_recorded pe"
    using step by blast
qed

lemma transform_to_pdf_processed_total:
  assumes "paths_recorded p"
  shows "\<exists>b p'. transform_to_pdf_processed e p i = Inr (b, p') \<and> paths_recorded p'"
proof (cases "documents (state p) i")
  case None
  then have "transform_to_pdf_processed e p i = Inr (False, enter transform i p)"
    by (simp add: transform_to_pdf_processed_def get_document_status_def Let_def)
  with assms show ?thesis by auto
next
  case (Some d)
  let ?p = "enter transform i p"
  have pr: "paths_recorded ?p" and ex: "documents (state ?p) i = Some d"
    using assms Some by simp_all
  show ?thesis
  proof (cases "status (steps d agentic_process) = COMPLETED")
    case False
    with Some have "transform_to_pdf_processed e p i = Inr (False, ?p)"
      by (simp add: transform_to_pdf_processed_def get_document_status_def Let_def)
    with pr show ?thesis by blast
  next
    case fin: True
    with assms Some obtain apath where ap: "files d agentic_process = Some apath"
      unfolding paths_recorded_def by blast
    from get_output_dirs_Some [OF ex] obtain a b c where
      dirs: "get_output_dirs ?p i = Inr (a, b, c)"
      by blast
    let ?path = "path_join c (rsplit_dot (original_filename d) @ ''.json'')"
    have unfold: "transform_to_pdf_processed e p i =
      (if fs ?p ?path \<noteq> None then stage_skipped ?p i transform ?path
       else (case transform_try e ?p i d apath ?path of
               Inr r \<Rightarrow> Inr r
             | Inl (m, pe) \<Rightarrow> stage_failed pe i transform (''Error transformando: '' @ m)))"
      using Some fin ap dirs
      by (simp add: transform_to_pdf_processed_def get_document_status_def Let_def)
    show ?thesis
    proof (cases "fs ?p ?path = None")
      case False
      have "documents (state ?p) i \<noteq> None" using ex by simp
      from stage_skipped_total [OF pr this path_join_nonempty] obtain p' where
        sk: "stage_skipped ?p i transform ?path = Inr (True, p')"
        and pr': "paths_recorded p'"
        by blast
      have "transform_to_pdf_processed e p i = Inr (True, p')"
        using False sk by (simp add: unfold)
      with pr' show ?thesis by blast
    next
      case absent: True
      show ?thesis
      proof (cases "transform_try e ?p i d apath ?path")
        case (Inr r)
        obtain ok p' where r: "r = (ok, p')" by (cases r)
        have run: "transform_try e ?p i d apath ?path = Inr (ok, p')"
          using Inr r by simp
        from pr path_join_nonempty run have pr': "paths_recorded p'"
          by (rule transform_try_keeps(1))
        have "transform_to_pdf_processed e p i = Inr (ok, p')"
          using absent run by (simp only: unfold) simp
        with pr' show ?thesis by blast
      next
        case (Inl x)
        obtain m pe where x: "x = (m, pe)" by (cases x)
        have run: "transform_try e ?p i d apath ?path = Inl (m, pe)"
          using Inl x by simp
        from pr path_join_nonempty run have pe: "paths_recorded pe"
          by (rule transform_try_keeps(2))
        have "(transform, i) \<in> {(transform, i)}" by simp
        from absent this run have "frame {(transform, i)} ?p pe"
          by (rule frame_transform_try(2))
        from this have "documents (state pe) i \<noteq> None"
          by (rule frame_documents) (simp add: Some)
        from stage_failed_total [OF pe this] obtain p' where
          sf: "stage_failed pe i transform (''Error transformando: '' @ m) = Inr (False, p')"
          and pr': "paths_recorded p'"
          by blast
        have "transform_to_pdf_processed e p i = Inr (False, p')"
          using absent run sf by (simp only: unfold) simp
        with pr' show ?thesis by blast
      qed
    qed
  qed
qed

subsection \<open>The orchestrators return\<close>

lemma process_document_total:
  assumes "paths_recorded p"
  shows "\<exists>r p'. process_document e p i = Inr (r, p') \<and> paths_recorded p'"
proof -
  from download_pdf_total [OF assms] obtain ok1 p1 where
    r1: "download_pdf e p i = Inr (ok1, p1)" and pr1: "paths_recorded p1"
    by blast
  from process_with_agentic_doc_total [OF pr1] obtain ok2 p2 where
    r2: "process_with_agentic_doc e p1 i = Inr (ok2, p2)" and pr2: "paths_recorded p2"
    by blast
  from transform_to_pdf_processed_total [OF pr2] obtain ok3 p3 where
    r3: "transform_to_pdf_processed e p2 i = Inr (ok3, p3)" and pr3: "paths_recorded p3"
    by blast
  have "process_document e p i =
          Inr (if \<not> ok1 then (Result_failed download, p1)
               else if \<not> ok2 then (Result_failed agentic_process, p2)
               else if \<not> ok3 then (Result_failed transform, p3)
               else (Result_completed, p3))"
    using r1 r2 r3 by (simp add: process_document_def)
  with pr1 pr2 pr3 show ?thesis
    by (cases ok1; cases ok2; cases ok3) simp_all
qed

lemma process_loop_total:
  assumes "paths_recorded p"
  shows "\<exists>rs' p'. process_loop e p rs ids = Inr (rs', p') \<and> paths_recorded p'"
  using assms
proof (induction ids arbitrary: p rs)
  case Nil
  then show ?case by simp
next
  case (Cons i ids)
  from process_document_total [OF Cons.prems] obtain r p1 where
    r: "process_document e p i = Inr (r, p1)" and pr1: "paths_recorded p1"
    by blast
  from Cons.IH [OF pr1] obtain rs' p' where
    "process_loop e p1 (rs(i \<mapsto> r)) ids = Inr (rs', p')" "paths_recorded p'"
    by blast
  with r show ?case by simp
qed

lemma paths_recorded_add_document:
  assumes "paths_recorded p"
  shows "paths_recorded (snd (add_document e p u a f))"
  using assms
  by (auto simp add: add_document_def Let_def now_def paths_recorded_def pending_steps_def
        split: prod.splits if_splits)

lemma paths_recorded_add_document_from_json:
  assumes "paths_recorded p"
  shows "paths_recorded (snd (add_document_from_json e p info))"
  using assms
  by (auto simp add: add_document_from_json_def Let_def now_def paths_recorded_def
        pending_steps_def split: prod.splits if_splits)

lemma paths_recorded_add_documents:
  assumes "paths_recorded p"
  shows "paths_recorded (snd (add_documents e p us))"
  using assms
proof (induction us arbitrary: p)
  case Nil
  then show ?case by simp
next
  case (Cons u us)
  have "paths_recorded (snd (add_document e p u None None))"
    using Cons.prems by (rule paths_recorded_add_document)
  then have "paths_recorded (snd (add_documents e (snd (add_document e p u None None)) us))"
    by (rule Cons.IH)
  then show ?case
    by (auto simp add: Let_def split: prod.splits)
qed

lemma add_document_from_json_registered:
  assumes "fst (add_document_from_json e p info) = Some i"
  shows "documents (state (snd (add_document_from_json e p info))) i \<noteq> None"
proof (cases "falsy_str (i_source info) \<or> falsy_str (i_name info)")
  case True
  with assms show ?thesis by (simp add: add_document_from_json_invalid)
next
  case False
  show ?thesis
  proof (cases "documents (state p) (get_document_id e (the (i_source info))) = None")
    case True
    with False assms add_document_from_json_new(2,3) [of info p e] show ?thesis by auto
  next
    case old: False
    with False assms add_document_from_json_old [of info p e] show ?thesis by auto
  qed
qed

lemma add_documents_from_json_total:
  assumes "paths_recorded p"
  shows "paths_recorded (snd (add_documents_from_json e p infos)) \<and>
         (\<forall>i \<in> set (fst (add_documents_from_json e p infos)).
            documents (state (snd (add_documents_from_json e p infos))) i \<noteq> None)"
  using assms
proof (induction infos arbitrary: p)
  case Nil
  then show ?case by simp
next
  case (Cons info infos)
  obtain r p1 where a: "add_document_from_json e p info = (r, p1)"
    by (cases "add_document_from_json e p info")
  obtain ids p2 where b: "add_documents_from_json e p1 infos = (ids, p2)"
    by (cases "add_documents_from_json e p1 infos")
  have pr1: "paths_recorded p1"
    using paths_recorded_add_document_from_json [OF Cons.prems, of e info] a by simp
  from Cons.IH [OF pr1] b have ih: "paths_recorded p2"
    "\<forall>i \<in> set ids. documents (state p2) i \<noteq> None"
    by simp_all
  have f: "frame {} p1 p2"
    using frame_add_documents_from_json [of "{}" p1 e infos] b by simp
  have head: "documents (state p2) i \<noteq> None" if "truthy_str r = Some i" for i
  proof -
    from that have "r = Some i"
      by (auto simp add: truthy_str_def split: option.splits if_splits)
    with a add_document_from_json_registered [of e p info i]
    have "documents (state p1) i \<noteq> None" by simp
    with f show ?thesis by (rule frame_documents)
  qed
  show ?case
    using a b ih head by (auto simp add: Let_def split: option.splits)
qed

lemma process_document_from_json_total:
  assumes "paths_recorded p" and "documents (state p) i \<noteq> None"
  shows "\<exists>r p'. process_document_from_json e p i = Inr (r, p') \<and> paths_recorded p'"
proof -
  from assms(2) obtain d where d: "documents (state p) i = Some d" by blast
  show ?thesis
  proof (cases "d_status d = COMPLETED")
    case True
    with d have "process_document_from_json e p i = Inr (Result_recovered, p)"
      by (simp add: process_document_from_json_def)
    with assms(1) show ?thesis by blast
  next
    case nc: False
    define r1 where "r1 = (if \<not> step_done p i download then download_pdf e p i else Inr (True, p))"
    have "\<exists>ok1 p1. r1 = Inr (ok1, p1) \<and> paths_recorded p1"
      unfolding r1_def using download_pdf_total [OF assms(1), of e i] assms(1) by auto
    then obtain ok1 p1 where r1: "r1 = Inr (ok1, p1)" and pr1: "paths_recorded p1" by blast
    define r2 where "r2 = (if \<not> step_done p1 i agentic_process
                           then process_with_agentic_doc e p1 i else Inr (True, p1))"
    have "\<exists>ok2 p2. r2 = Inr (ok2, p2) \<and> paths_recorded p2"
      unfolding r2_def using process_with_agentic_doc_total [OF pr1, of e i] pr1 by auto
    then obtain ok2 p2 where r2: "r2 = Inr (ok2, p2)" and pr2: "paths_recorded p2" by blast
    define r3 where "r3 = (if \<not> step_done p2 i transform
                           then transform_to_pdf_processed e p2 i else Inr (True, p2))"
    have "\<exists>ok3 p3. r3 = Inr (ok3, p3) \<and> paths_recorded p3"
      unfolding r3_def using transform_to_pdf_processed_total [OF pr2, of e i] pr2 by auto
    then obtain ok3 p3 where r3: "r3 = Inr (ok3, p3)" and pr3: "paths_recorded p3" by blast
    have "process_document_from_json e p i =
            Inr (if \<not> ok1 then (Result_failed download, p1)
                 else if \<not> ok2 then (Result_failed agentic_process, p2)
                 else if \<not> ok3 then (Result_failed transform, p3)
                 else (Result_completed, p3))"
      using d nc r1 r2 r3 unfolding r1_def r2_def r3_def
      by (simp add: process_document_from_json_def)
    with pr1 pr2 pr3 show ?thesis
      by (cases ok1; cases ok2; cases ok3) simp_all
  qed
qed

lemma process_loop_from_json_total:
  assumes "paths_recorded p" and "\<forall>i \<in> set ids. documents (state p) i \<noteq> None"
  shows "\<exists>rs' p'. process_loop_from_json e p rs ids = Inr (rs', p') \<and> paths_recorded p'"
  using assms
proof (induction ids arbitrary: p rs)
  case Nil
  then show ?case by simp
next
  case (Cons i ids)
  from Cons.prems have "documents (state p) i \<noteq> None" by simp
  from process_document_from_json_total [OF Cons.prems(1) this] obtain r p1 where
    r: "process_document_from_json e p i = Inr (r, p1)" and pr1: "paths_recorded p1"
    by blast
  have f: "frame UNIV p p1"
    using r by (rule frame_process_document_from_json) simp
  have "\<forall>j \<in> set ids. documents (state p1) j \<noteq> None"
    using Cons.prems(2) frame_documents [OF f] by simp
  from Cons.IH [OF pr1 this] obtain rs' p' where
    "process_loop_from_json e p1 (rs(i \<mapsto> r)) ids = Inr (rs', p')" "paths_recorded p'"
    by blast
  with r show ?case by simp
qed

lemma process_all_documents_total:
  assumes "paths_recorded p"
  shows "\<exists>res p'. process_all_documents e p us = Inr (res, p') \<and> paths_recorded p'"
proof -
  obtain ids p1 where a: "add_documents e p us = (ids, p1)"
    by (cases "add_documents e p us")
  have "paths_recorded p1"
    using paths_recorded_add_documents [OF assms, of e us] a by simp
  then have "paths_recorded (snd (now p1))" by simp
  from process_loop_total [OF this] obtain rs p3 where
    l: "process_loop e (snd (now p1)) Map.empty ids = Inr (rs, p3)" and pr3: "paths_recorded p3"
    by blast
  have "process_all_documents e p us =
          Inr (\<lparr> started_at = fst (now p1), total_documents = length ids, r_documents = rs,
                 completed_at = Some (fst (now p3)) \<rparr>, snd (now p3))"
    using a l by (simp add: process_all_documents_def Let_def case_prod_beta)
  with pr3 show ?thesis by simp
qed

lemma process_all_documents_from_json_total:
  assumes "paths_recorded p"
  shows "\<exists>res p'. process_all_documents_from_json e p infos = Inr (res, p') \<and>
           paths_recorded p'"
proof -
  obtain ids p1 where a: "add_documents_from_json e p infos = (ids, p1)"
    by (cases "add_documents_from_json e p infos")
  from add_documents_from_json_total [OF assms, of e infos] a
  have pr1: "paths_recorded (snd (now p1))"
    and ex: "\<forall>i \<in> set ids. documents (state (snd (now p1))) i \<noteq> None"
    by simp_all
  from process_loop_from_json_total [OF pr1 ex] obtain rs p3 where
    l: "process_loop_from_json e (snd (now p1)) Map.empty ids = Inr (rs, p3)"
    and pr3: "paths_recorded p3"
    by blast
  have "process_all_documents_from_json e p infos =
          Inr (\<lparr> started_at = fst (now p1), total_documents = length ids, r_documents = rs,
                 completed_at = Some (fst (now p3)) \<rparr>, snd (now p3))"
    using a l by (simp add: process_all_documents_from_json_def Let_def case_prod_beta)
  with pr3 show ?thesis by simp
qed

subsection \<open>The error list\<close>

lemma update_step_status_effect:
  assumes "update_step_status p i stp st fp err = Inr p'"
  shows "\<exists>d. documents (state p) i = Some d \<and>
           documents (state p') =
             (documents (state p))(i \<mapsto> updated_document d stp st fp err (clock p)) \<and>
           fs p' = (fs p)(state_file p \<mapsto> StateFile (state p')) \<and>
           state_file p' = state_file p \<and> work_dir p' = work_dir p \<and> invoked p' = invoked p"
proof -
  from update_step_status_Inr [OF assms] obtain d where
    d: "documents (state p) i = Some d" and
    eq: "documents (state p') =
           (documents (state p))(i \<mapsto> updated_document d stp st fp err (clock p))"
    by blast
  have "fs p' = (fs p)(state_file p \<mapsto> StateFile (state p'))" "state_file p' = state_file p"
    "work_dir p' = work_dir p" "invoked p' = invoked p"
    using assms d
    by (auto simp add: update_step_status_def Let_def now_def save_state_def
          split: option.splits prod.splits)
  with d eq show ?thesis by blast
qed

lemma frame_errors_kept: "frame A p p' \<Longrightarrow> errors_kept p p'"
  unfolding frame_def errors_kept_def record_frame_def by blast

text \<open>
  C10. A step-status update that returns leaves the error list of its record as it was,
  with one entry more at the end when an error message (not empty) was supplied, and
  leaves every other record alone. Every other operation that returns (the two
  registrations, the three stage executors, the two orchestrators) leaves every record in
  place with its old error list as the beginning of the new one: no entry is removed,
  changed or reordered.
\<close>

theorem errors_append_only:
  "(update_step_status p i stp st fp err = Inr p' \<longrightarrow>
      (\<exists>d d'. documents (state p) i = Some d \<and> documents (state p') i = Some d' \<and>
         errors d' = errors d @
           (case truthy_str err of
              Some m \<Rightarrow> [\<lparr> e_step = stp, e_error = m, e_timestamp = Suc (clock p) \<rparr>]
            | None \<Rightarrow> [])) \<and>
      (\<forall>j. j \<noteq> i \<longrightarrow> documents (state p') j = documents (state p) j)) \<and>
   errors_kept p (snd (add_document e p u a f)) \<and>
   errors_kept p (snd (add_document_from_json e p info)) \<and>
   (download_pdf e p i = Inr (b, p') \<longrightarrow> errors_kept p p') \<and>
   (process_with_agentic_doc e p i = Inr (b, p') \<longrightarrow> errors_kept p p') \<and>
   (transform_to_pdf_processed e p i = Inr (b, p') \<longrightarrow> errors_kept p p') \<and>
   (process_all_documents e p us = Inr (res, p') \<longrightarrow> errors_kept p p') \<and>
   (process_all_documents_from_json e p infos = Inr (res, p') \<longrightarrow> errors_kept p p')"
proof (intro conjI impI)
  assume "update_step_status p i stp st fp err = Inr p'"
  from update_step_status_Inr [OF this] obtain d where
    d: "documents (state p) i = Some d" and
    eq: "documents (state p') =
           (documents (state p))(i \<mapsto> updated_document d stp st fp err (clock p))"
    by blast
  show "\<exists>d d'. documents (state p) i = Some d \<and> documents (state p') i = Some d' \<and>
         errors d' = errors d @
           (case truthy_str err of
              Some m \<Rightarrow> [\<lparr> e_step = stp, e_error = m, e_timestamp = Suc (clock p) \<rparr>]
            | None \<Rightarrow> [])"
    using d eq by (auto simp add: updated_document_def split: option.splits)
  show "\<forall>j. j \<noteq> i \<longrightarrow> documents (state p') j = documents (state p) j"
    using eq by simp
next
  show "errors_kept p (snd (add_document e p u a f))"
    using frame_add_document [of UNIV] by (rule frame_errors_kept)
  show "errors_kept p (snd (add_document_from_json e p info))"
    using frame_add_document_from_json [of UNIV] by (rule frame_errors_kept)
next
  assume "download_pdf e p i = Inr (b, p')"
  then have "frame UNIV p p'" by (rule frame_download_pdf) simp
  then show "errors_kept p p'" by (rule frame_errors_kept)
next
  assume "process_with_agentic_doc e p i = Inr (b, p')"
  then have "frame UNIV p p'" by (rule frame_process_with_agentic_doc) simp
  then show "errors_kept p p'" by (rule frame_errors_kept)
next
  assume "transform_to_pdf_processed e p i = Inr (b, p')"
  then have "frame UNIV p p'" by (rule frame_transform_to_pdf_processed) simp
  then show "errors_kept p p'" by (rule frame_errors_kept)
next
  assume "process_all_documents e p us = Inr (res, p')"
  then have "frame UNIV p p'" by (rule frame_process_all_documents)
  then show "errors_kept p p'" by (rule frame_errors_kept)
next
  assume "process_all_documents_from_json e p infos = Inr (res, p')"
  then have "frame UNIV p p'" by (rule frame_process_all_documents_from_json) simp
  then show "errors_kept p p'" by (rule frame_errors_kept)
qed

lemma get_output_dirs_enter [simp]: "get_output_dirs (enter stp i p) j = get_output_dirs p j"
  by (simp add: get_output_dirs_def get_document_status_def enter_def Let_def
        split: option.splits)

lemma download_pdf_unfold:
  assumes "documents (state p) i = Some d" and "get_output_dirs p i = Inr (a, b, c)"
  shows "download_pdf e p i =
      (if fs p (path_join a (original_filename d)) \<noteq> None
       then stage_skipped (enter download i p) i download (path_join a (original_filename d))
       else (case download_try e (enter download i p) i (url d)
                    (path_join a (original_filename d)) of
               Inr p' \<Rightarrow> Inr (True, p')
             | Inl (m, pe) \<Rightarrow> stage_failed pe i download (''Error descargando PDF: '' @ m)))"
  using assms by (simp add: download_pdf_def get_document_status_def Let_def)

lemma enter_fields [simp]:
  "state_file (enter stp i p) = state_file p" "work_dir (enter stp i p) = work_dir p"
  "clock (enter stp i p) = clock p" "invoked (enter stp i p) = invoked p @ [(stp, i)]"
  by (simp_all add: enter_def)

lemma download_pdf_raises:
  assumes "documents (state p) i = Some d" and "get_output_dirs p i = Inr (a, b, c)"
      and "fs p (path_join a (original_filename d)) = None"
      and "requests_get e (url d) = Inl m"
  shows "\<exists>p'. download_pdf e p i = Inr (False, p') \<and>
           documents (state p') =
             (documents (state p))(i \<mapsto> updated_document d download FAILED None
                (Some (''Error descargando PDF: '' @ m)) (clock p)) \<and>
           fs p' = (fs p)(state_file p \<mapsto> StateFile (state p')) \<and>
           state_file p' = state_file p \<and> work_dir p' = work_dir p"
proof -
  let ?p = "enter download i p"
  let ?msg = "''Error descargando PDF: '' @ m"
  have "documents (state ?p) i = Some d" using assms(1) by simp
  from update_step_status_Some [OF this] obtain p' where
    u: "update_step_status ?p i download FAILED None (Some ?msg) = Inr p'"
    by blast
  have "download_pdf e p i = Inr (False, p')"
    using assms(3,4) u
    by (simp add: download_pdf_unfold [OF assms(1,2)] download_try_def stage_failed_def)
  with update_step_status_effect [OF u] assms(1) show ?thesis
    by auto
qed

lemma download_pdf_succeeds:
  assumes "documents (state p) i = Some d" and "get_output_dirs p i = Inr (a, b, c)"
      and "fs p (path_join a (original_filename d)) = None"
      and "requests_get e (url d) = Inr body"
      and "write_result e (path_join a (original_filename d)) = WriteOk"
  shows "\<exists>p'. download_pdf e p i = Inr (True, p') \<and>
           documents (state p') =
             (documents (state p))(i \<mapsto> updated_document d download COMPLETED
                (Some (path_join a (original_filename d))) None (clock p)) \<and>
           fs p' = (fs p)(path_join a (original_filename d) \<mapsto> PdfFile body,
                          state_file p \<mapsto> StateFile (state p')) \<and>
           state_file p' = state_file p \<and> work_dir p' = work_dir p"
proof -
  let ?path = "path_join a (original_filename d)"
  let ?p1 = "(enter download i p)\<lparr>fs := (fs p)(?path \<mapsto> PdfFile body)\<rparr>"
  have w: "write_file e (enter download i p) ?path (PdfFile body) = Inr ?p1"
    using assms(5) by (simp add: write_file_def)
  have "documents (state ?p1) i = Some d" using assms(1) by simp
  from update_step_status_Some [OF this] obtain p' where
    u: "update_step_status ?p1 i download COMPLETED (Some ?path) None = Inr p'"
    by blast
  have "download_pdf e p i = Inr (True, p')"
    using assms(3,4) w u
    by (simp add: download_pdf_unfold [OF assms(1,2)] download_try_def update_in_try_def)
  with update_step_status_effect [OF u] assms(1) show ?thesis
    by auto
qed

lemma pipeline1_fields:
  "work_dir pipeline1 = ''work''" "state_file pipeline1 = ''work/state/pipeline_state.json''"
  "fs pipeline1 = [''work/state/pipeline_state.json'' \<mapsto> StateFile (state pipeline1)]"
  by (simp_all add: pipeline1_def pipeline0_def init_def load_state_def add_document_def
        get_document_id_def get_filename_from_url_def env0_def now_def Let_def fresh_state_def
        truthy_str_def path_join_def save_state_def)

lemma pipeline1_dirs:
  "get_output_dirs pipeline1 ''u/a.pdf'' =
     Inr (''work/pdfs'', ''work/agentic_outputs'', ''work/pdf_processed'')"
  by (simp add: get_output_dirs_def get_document_status_def pipeline1_documents
        pipeline1_fields empty_metadata_def get_or_def path_join_def)

theorem errors_append_only_witness:
  "\<exists>p2 p3 d2 d3.
     download_pdf env_down pipeline1 ''u/a.pdf'' = Inr (False, p2) \<and>
     documents (state p2) ''u/a.pdf'' = Some d2 \<and>
     status (steps d2 download) = FAILED \<and>
     map e_error (errors d2) = [''Error descargando PDF: timeout''] \<and>
     download_pdf env0 p2 ''u/a.pdf'' = Inr (True, p3) \<and>
     documents (state p3) ''u/a.pdf'' = Some d3 \<and>
     status (steps d3 download) = COMPLETED \<and>
     errors d3 = errors d2 \<and> errors_kept pipeline1 p2 \<and> errors_kept p2 p3"
proof -
  let ?d1 = "\<lparr> url = ''u/a.pdf'', original_filename = ''a.pdf'', d_metadata = empty_metadata,
            d_status = PENDING, created_at = 1, steps = pending_steps,
            files = Map.empty, errors = [] \<rparr>"
  have absent1: "fs pipeline1 (path_join ''work/pdfs'' (original_filename ?d1)) = None"
    by (simp add: pipeline1_fields path_join_def)
  have down: "requests_get env_down (url ?d1) = Inl ''timeout''"
    by (simp add: env_down_def)
  from download_pdf_raises [OF pipeline1_documents pipeline1_dirs absent1 down]
  obtain p2 where
    r2: "download_pdf env_down pipeline1 ''u/a.pdf'' = Inr (False, p2)" and
    s2: "documents (state p2) =
           (documents (state pipeline1))(''u/a.pdf'' \<mapsto> updated_document ?d1 download FAILED None
              (Some (''Error descargando PDF: '' @ ''timeout'')) (clock pipeline1))" and
    f2: "fs p2 = (fs pipeline1)(state_file pipeline1 \<mapsto> StateFile (state p2))" and
    o2: "state_file p2 = state_file pipeline1" "work_dir p2 = work_dir pipeline1"
    by blast
  let ?d2 = "updated_document ?d1 download FAILED None
              (Some (''Error descargando PDF: '' @ ''timeout'')) (clock pipeline1)"
  have d2: "documents (state p2) ''u/a.pdf'' = Some ?d2"
    using s2 by simp
  have dirs2: "get_output_dirs p2 ''u/a.pdf'' =
     Inr (''work/pdfs'', ''work/agentic_outputs'', ''work/pdf_processed'')"
    by (simp add: get_output_dirs_def get_document_status_def d2 o2 pipeline1_fields
          updated_document_def empty_metadata_def get_or_def path_join_def)
  have absent2: "fs p2 (path_join ''work/pdfs'' (original_filename ?d2)) = None"
    by (simp add: f2 pipeline1_fields path_join_def updated_document_def)
  have up: "requests_get env0 (url ?d2) = Inr ''%PDF''"
    "write_result env0 (path_join ''work/pdfs'' (original_filename ?d2)) = WriteOk"
    by (simp_all add: env0_def)
  from download_pdf_succeeds [OF d2 dirs2 absent2 up]
  obtain p3 where
    r3: "download_pdf env0 p2 ''u/a.pdf'' = Inr (True, p3)" and
    s3: "documents (state p3) =
           (documents (state p2))(''u/a.pdf'' \<mapsto> updated_document ?d2 download COMPLETED
              (Some (path_join ''work/pdfs'' (original_filename ?d2))) None (clock p2))"
    by blast
  let ?d3 = "updated_document ?d2 download COMPLETED
              (Some (path_join ''work/pdfs'' (original_filename ?d2))) None (clock p2)"
  have d3: "documents (state p3) ''u/a.pdf'' = Some ?d3"
    using s3 by simp
  have k2: "errors_kept pipeline1 p2"
    using errors_append_only [where e = env_down and p = pipeline1 and i = "''u/a.pdf''"
        and b = False and p' = p2] r2 by blast
  have k3: "errors_kept p2 p3"
    using errors_append_only [where e = env0 and p = p2 and i = "''u/a.pdf''"
        and b = True and p' = p3] r3 by blast
  have v: "status (steps ?d2 download) = FAILED"
    "map e_error (errors ?d2) = [''Error descargando PDF: timeout'']"
    "status (steps ?d3 download) = COMPLETED" "errors ?d3 = errors ?d2"
    by (simp_all add: updated_document_def truthy_str_def path_join_def)
  show ?thesis
    by (intro exI [of _ p2] exI [of _ p3] exI [of _ ?d2] exI [of _ ?d3] conjI)
       (fact r2 d2 r3 d3 k2 k3 v)+
qed

end
